theory Spec2Isabelle
  imports Main "HOL-Library.Sublist"
begin

section \<open>Data model of urlUpdater.js\<close>

text \<open>
  The refresh engine is the module \<^verbatim>\<open>urlUpdater.js\<close> (the second half of
  \<^verbatim>\<open>src/telegramBot.js\<close>, lines 225 to 681). It talks to the Supabase row
  store, the Facebook Graph API, plain HTTP (the HEAD probe) and Telegram. The model
  passes the process state and the store explicitly and takes the services' answers from an
  environment that is a parameter of every function, so every theorem holds for all answers
  the services may give.

  JavaScript numbers that only count (\<^verbatim>\<open>stats.*\<close>) are \<open>nat\<close>: they start at 0 and
  are only incremented, far below \<open>2^53\<close>. Timestamps are \<open>nat\<close> (ISO strings of one
  format order as the instants they denote).
\<close>

type_synonym timestamp = nat

text \<open>\<^verbatim>\<open>{ id, title }\<close>: one entry of a failure bucket.\<close>

record failureInfo =
  info_id :: string
  info_title :: "string option"

text \<open>\<^verbatim>\<open>stats.failures\<close> and \<^verbatim>\<open>stats\<close> (lines 235 to 246).\<close>

record failure_buckets =
  notFound :: "failureInfo list"
  permissionDenied :: "failureInfo list"
  apiError :: "failureInfo list"

record run_stats =
  totalChecked :: nat
  alreadyValid :: nat
  updated :: nat
  failed :: nat
  queued :: nat
  apiCallsUsed :: nat
  startTime :: "timestamp option"
  episodesUpdated :: nat
  moviesUpdated :: nat
  failures :: failure_buckets

text \<open>
  A row of the tables \<^verbatim>\<open>episodes\<close> and \<^verbatim>\<open>movies\<close>. The two tables name the
  URL column \<^verbatim>\<open>video_url\<close> / \<^verbatim>\<open>videoUrl\<close> and the id column
  \<^verbatim>\<open>facebook_video_id\<close> / \<^verbatim>\<open>facebookVideoId\<close>; the code reaches both through
  \<^verbatim>\<open>table.videoUrlColumn\<close> and \<^verbatim>\<open>table.videoIdColumn\<close>, which name the fields
  here. All three data columns are nullable.
\<close>

record row =
  row_ident :: int
  title :: "string option"
  videoUrlColumn :: "string option"
  videoIdColumn :: "string option"

text \<open>A row of \<^verbatim>\<open>url_update_queue\<close> (the README's table definition).\<close>

record task =
  queue_id :: nat
  table_name :: string
  row_id :: int
  facebook_video_id :: string
  old_url :: "string option"
  video_title :: "string option"
  status :: string
  error_message :: "string option"
  created_at :: timestamp
  processed_at :: "timestamp option"

text \<open>The three messages \<^verbatim>\<open>processUrlUpdates\<close> pushes, and the closing line of the report.\<close>

datatype closing = AllUpdated | AllValid | QueuedNote nat | NoClosing

datatype notification = StartNote | ReportNote closing | ErrorNote

text \<open>Every request the module sends to a service, with the arguments the code passes.\<close>

datatype request =
    HttpHead string
  | GraphGet string
  | TelegramPost notification
  | QueueSelect nat
  | QueueInsert string int string "string option" "string option"
  | QueueUpdate nat string "string option" timestamp
  | TableSelect string
  | TableUpdate string int string

text \<open>
  What \<^verbatim>\<open>axios.get\<close> on the Graph API gives: a response with its \<^verbatim>\<open>data\<close>, or a
  rejection with \<^verbatim>\<open>error.message\<close> and the value of
  \<^verbatim>\<open>error.response?.data?.error\<close> (absent at a transport failure).
\<close>

datatype fb_error = FbError (err_code: "int option") (err_message: "string option")

datatype response_data = ResponseData (source: "string option")

datatype axios_outcome =
    Resolved "response_data option"
  | Rejected string "fb_error option"

text \<open>
  The state: the module-global \<^verbatim>\<open>stats\<close>, the three tables, and the log of the requests
  sent so far. The environment answers the request number \<open>tick\<close>: the final HTTP status of
  a HEAD request (\<open>None\<close>: no response), the outcome of a Graph lookup, whether a store
  request fails, the wall clock, and whether Telegram is configured.
\<close>

record world =
  stats :: run_stats
  episodes :: "row list"
  movies :: "row list"
  url_update_queue :: "task list"
  trace :: "request list"

record env =
  http_head :: "nat \<Rightarrow> string \<Rightarrow> nat option"
  graph_get :: "nat \<Rightarrow> string \<Rightarrow> axios_outcome"
  db_error :: "nat \<Rightarrow> request \<Rightarrow> bool"
  now :: "nat \<Rightarrow> timestamp"
  tg_configured :: bool

definition tick :: "world \<Rightarrow> nat" where
  "tick w = length (trace w)"

definition issue :: "request \<Rightarrow> world \<Rightarrow> world" where
  "issue r w = w\<lparr>trace := trace w @ [r]\<rparr>"

definition MAX_API_CALLS :: nat where
  "MAX_API_CALLS = 190"

section \<open>Strings\<close>

text \<open>
  \<^verbatim>\<open>toLowerCase\<close> on 8-bit characters (the letters A to Z), and \<^verbatim>\<open>hay.includes(needle)\<close>.
\<close>

definition lower_char :: "char \<Rightarrow> char" where
  "lower_char c =
     (if 65 \<le> (of_char c :: nat) \<and> (of_char c :: nat) \<le> 90
      then char_of ((of_char c :: nat) + 32) else c)"

definition toLowerCase :: "string \<Rightarrow> string" where
  "toLowerCase s = map lower_char s"

fun includes_str :: "string \<Rightarrow> string \<Rightarrow> bool" where
  "includes_str [] needle = (needle = [])"
| "includes_str (c # cs) needle = (prefix needle (c # cs) \<or> includes_str cs needle)"

section \<open>Validity Prober and Source Resolver\<close>

text \<open>\<^verbatim>\<open>validateStatus: (status) => status === 200\<close>\<close>

definition validateStatus :: "nat \<Rightarrow> bool" where
  "validateStatus st = (st = 200)"

text \<open>
  \<^verbatim>\<open>isUrlValid\<close> (lines 266 to 279). \<^verbatim>\<open>!url\<close> holds of \<^verbatim>\<open>null\<close> and of the empty
  string. A status refused by \<^verbatim>\<open>validateStatus\<close> rejects the promise, and the
  \<^verbatim>\<open>catch\<close> returns false.
\<close>

definition isUrlValid :: "env \<Rightarrow> string option \<Rightarrow> world \<Rightarrow> bool \<times> world" where
  "isUrlValid e url w =
     (case url of
        None \<Rightarrow> (False, w)
      | Some u \<Rightarrow>
          if u = [] \<or> u = ''NULL'' \<or> u = '''' then (False, w)
          else (case http_head e (tick w) u of
                  Some st \<Rightarrow>
                    if validateStatus st then (st = 200, issue (HttpHead u) w)
                    else (False, issue (HttpHead u) w)
                | None \<Rightarrow> (False, issue (HttpHead u) w)))"

text \<open>The value \<^verbatim>\<open>getFacebookVideoUrl\<close> returns.\<close>

datatype resolve_result =
    Success (url: string)
  | Failure (error: string) (message: string)

text \<open>An assignment to a field of \<^verbatim>\<open>stats\<close>; \<open>bump_api\<close> is \<^verbatim>\<open>stats.apiCallsUsed++\<close>.\<close>

definition upd_stats :: "(run_stats \<Rightarrow> run_stats) \<Rightarrow> world \<Rightarrow> world" where
  "upd_stats f w = w\<lparr>stats := f (stats w)\<rparr>"

definition bump_api :: "world \<Rightarrow> world" where
  "bump_api w = upd_stats (\<lambda>s. s\<lparr>apiCallsUsed := apiCallsUsed s + 1\<rparr>) w"

text \<open>
  \<^verbatim>\<open>getFacebookVideoUrl\<close> (lines 281 to 323). \<^verbatim>\<open>response.data && response.data.source\<close>
  is falsy when \<^verbatim>\<open>data\<close> or \<^verbatim>\<open>source\<close> is missing or \<^verbatim>\<open>source\<close> is the empty string.
  \<^verbatim>\<open>message || ''\<close> turns a missing message into the empty string.
\<close>

definition getFacebookVideoUrl :: "env \<Rightarrow> string \<Rightarrow> world \<Rightarrow> resolve_result \<times> world" where
  "getFacebookVideoUrl e videoId w =
     (let w1 = issue (GraphGet videoId) w in
      case graph_get e (tick w) videoId of
        Resolved d \<Rightarrow>
          (let w2 = bump_api w1 in
           case d of
             Some (ResponseData (Some src)) \<Rightarrow>
               if src \<noteq> [] then (Success src, w2)
               else (Failure ''no_source'' ''No source URL found'', w2)
           | _ \<Rightarrow> (Failure ''no_source'' ''No source URL found'', w2))
      | Rejected emsg err \<Rightarrow>
          (let w2 = bump_api w1 in
           case err of
             Some (FbError code m) \<Rightarrow>
               (let message = (case m of Some x \<Rightarrow> x | None \<Rightarrow> []) in
                if code = Some 100 \<or> includes_str (toLowerCase message) ''does not exist''
                then (Failure ''not_found'' ''Video not found'', w2)
                else if code = Some 200 \<or> code = Some 10
                        \<or> includes_str (toLowerCase message) ''permission''
                then (Failure ''permission_denied'' ''No permission'', w2)
                else if code = Some 4 \<or> code = Some 17
                        \<or> includes_str (toLowerCase message) ''rate limit''
                then (Failure ''rate_limit'' ''Rate limit reached'', w2)
                else (Failure ''api_error'' (''API error: '' @ message), w2))
           | None \<Rightarrow> (Failure ''network_error'' emsg, w2)))"

text \<open>\<^verbatim>\<open>testFacebookVideo\<close> (lines 676 to 679).\<close>

definition testFacebookVideo :: "env \<Rightarrow> string \<Rightarrow> world \<Rightarrow> resolve_result \<times> world" where
  "testFacebookVideo e videoId w = getFacebookVideoUrl e videoId w"

section \<open>Deferred-Work Store and Record Updater\<close>

text \<open>
  A request to the store either succeeds or fails; the environment says which
  (\<open>db_error\<close>), and a failed request leaves the store as it was. The client reports a
  failure in the \<^verbatim>\<open>error\<close> field of the value it resolves with (it does not reject
  unless asked to); \<^verbatim>\<open>addToQueue\<close> and \<^verbatim>\<open>updateVideoUrl\<close> return false for that
  field and for an exception alike, \<^verbatim>\<open>markQueueProcessed\<close> reads neither, and the two
  listings read the field.

  The store gives a new task its \<^verbatim>\<open>id\<close> (\<^verbatim>\<open>BIGSERIAL\<close>) and \<^verbatim>\<open>created_at\<close>
  (\<^verbatim>\<open>DEFAULT NOW()\<close>).
\<close>

definition next_id :: "task list \<Rightarrow> nat" where
  "next_id q = Suc (fold max (map queue_id q) 0)"

text \<open>\<^verbatim>\<open>addToQueue\<close> (lines 325 to 345).\<close>

definition addToQueue ::
  "env \<Rightarrow> string \<Rightarrow> int \<Rightarrow> string \<Rightarrow> string option \<Rightarrow> string option \<Rightarrow> world \<Rightarrow> bool \<times> world" where
  "addToQueue e tableName rowId videoId oldUrl ttl w =
     (let r = QueueInsert tableName rowId videoId oldUrl ttl;
          w1 = issue r w
      in if db_error e (tick w) r then (False, w1)
         else (True, w1\<lparr>url_update_queue := url_update_queue w1 @
                 [\<lparr>queue_id = next_id (url_update_queue w1),
                   table_name = tableName,
                   row_id = rowId,
                   facebook_video_id = videoId,
                   old_url = oldUrl,
                   video_title = ttl,
                   status = ''pending'',
                   error_message = None,
                   created_at = now e (tick w),
                   processed_at = None\<rparr>]\<rparr>))"

text \<open>
  \<^verbatim>\<open>markQueueProcessed\<close> (lines 347 to 357): an update of the rows whose id is
  \<^verbatim>\<open>queueId\<close>, with no condition on their present status; the result of the request
  is not read.
\<close>

definition markQueueProcessed ::
  "env \<Rightarrow> nat \<Rightarrow> string \<Rightarrow> string option \<Rightarrow> world \<Rightarrow> world" where
  "markQueueProcessed e queueId st errorMsg w =
     (let t = now e (tick w);
          r = QueueUpdate queueId st errorMsg t;
          w1 = issue r w
      in if db_error e (tick w) r then w1
         else w1\<lparr>url_update_queue :=
                 map (\<lambda>x. if queue_id x = queueId
                          then x\<lparr>status := st, processed_at := Some t, error_message := errorMsg\<rparr>
                          else x)
                     (url_update_queue w1)\<rparr>)"

text \<open>\<^verbatim>\<open>.update(updateData).eq('id', rowId)\<close> on the URL column of a table.\<close>

definition set_url :: "int \<Rightarrow> string \<Rightarrow> row list \<Rightarrow> row list" where
  "set_url rowId newUrl rows =
     map (\<lambda>x. if row_ident x = rowId then x\<lparr>videoUrlColumn := Some newUrl\<rparr> else x) rows"

text \<open>
  \<^verbatim>\<open>updateVideoUrl\<close> (lines 359 to 390). For a table that is neither \<^verbatim>\<open>episodes\<close>
  nor \<^verbatim>\<open>movies\<close> it returns false before any request; for these two the update data
  names the table's URL column, the field \<open>videoUrlColumn\<close> here.
\<close>

definition updateVideoUrl :: "env \<Rightarrow> string \<Rightarrow> int \<Rightarrow> string \<Rightarrow> world \<Rightarrow> bool \<times> world" where
  "updateVideoUrl e tableName rowId newUrl w =
     (if tableName \<noteq> ''episodes'' \<and> tableName \<noteq> ''movies'' then (False, w)
      else
        (let r = TableUpdate tableName rowId newUrl;
             w1 = issue r w
         in if db_error e (tick w) r then (False, w1)
            else if tableName = ''episodes''
            then (True, upd_stats (\<lambda>s. s\<lparr>episodesUpdated := episodesUpdated s + 1\<rparr>)
                          (w1\<lparr>episodes := set_url rowId newUrl (episodes w1)\<rparr>))
            else (True, upd_stats (\<lambda>s. s\<lparr>moviesUpdated := moviesUpdated s + 1\<rparr>)
                          (w1\<lparr>movies := set_url rowId newUrl (movies w1)\<rparr>))))"

section \<open>Refresh Orchestrator\<close>

text \<open>
  The three-way \<^verbatim>\<open>if\<close> on \<^verbatim>\<open>result.error\<close> that files a failure in its bucket
  (lines 434 to 440 and 520 to 526).
\<close>

definition push_failure :: "string \<Rightarrow> failureInfo \<Rightarrow> world \<Rightarrow> world" where
  "push_failure err info w =
     (if err = ''not_found''
      then upd_stats (\<lambda>s. s\<lparr>failures := (failures s)\<lparr>notFound := notFound (failures s) @ [info]\<rparr>\<rparr>) w
      else if err = ''permission_denied''
      then upd_stats (\<lambda>s. s\<lparr>failures :=
                             (failures s)\<lparr>permissionDenied := permissionDenied (failures s) @ [info]\<rparr>\<rparr>) w
      else upd_stats (\<lambda>s. s\<lparr>failures := (failures s)\<lparr>apiError := apiError (failures s) @ [info]\<rparr>\<rparr>) w)"

text \<open>
  The query of \<^verbatim>\<open>processQueue\<close> (lines 395 to 400):
  \<^verbatim>\<open>.eq('status', 'pending').order('created_at', { ascending: true }).limit(n)\<close>.
  Tasks created at the same instant keep the order of the table here; no property below
  depends on that.
\<close>

definition selectPending :: "nat \<Rightarrow> task list \<Rightarrow> task list" where
  "selectPending n q = take n (sort_key created_at (filter (\<lambda>x. status x = ''pending'') q))"

text \<open>
  \<^verbatim>\<open>queueItems\<close>, the list the loop of \<^verbatim>\<open>processQueue\<close> runs over: at an error the
  function returns before the loop, as it does for an empty list.
\<close>

definition queueItems :: "env \<Rightarrow> nat \<Rightarrow> world \<Rightarrow> task list" where
  "queueItems e n w =
     (if db_error e (tick w) (QueueSelect n) then []
      else selectPending n (url_update_queue w))"

text \<open>The body of the loop of \<^verbatim>\<open>processQueue\<close> after its budget check (lines 415 to 443).\<close>

definition processQueueItem :: "env \<Rightarrow> task \<Rightarrow> world \<Rightarrow> world" where
  "processQueueItem e item w =
     (let (result, w1) = getFacebookVideoUrl e (facebook_video_id item) w
      in case result of
           Success u \<Rightarrow>
             (let (updated_ok, w2) = updateVideoUrl e (table_name item) (row_id item) u w1
              in if updated_ok
                 then upd_stats (\<lambda>s. s\<lparr>updated := updated s + 1\<rparr>)
                        (markQueueProcessed e (queue_id item) ''completed'' None w2)
                 else upd_stats (\<lambda>s. s\<lparr>failed := failed s + 1\<rparr>)
                        (markQueueProcessed e (queue_id item) ''failed''
                           (Some ''Database update failed'') w2))
         | Failure err msg \<Rightarrow>
             (let w2 = upd_stats (\<lambda>s. s\<lparr>failed := failed s + 1\<rparr>)
                         (markQueueProcessed e (queue_id item) ''failed'' (Some msg) w1);
                  info = \<lparr>info_id = facebook_video_id item,
                          info_title = Some (case video_title item of
                                               None \<Rightarrow> ''Unknown''
                                             | Some t \<Rightarrow> if t = [] then ''Unknown'' else t)\<rparr>
              in push_failure err info w2))"

fun processQueueItems :: "env \<Rightarrow> task list \<Rightarrow> world \<Rightarrow> world" where
  "processQueueItems e [] w = w"
| "processQueueItems e (item # items) w =
     (if apiCallsUsed (stats w) \<ge> MAX_API_CALLS then w
      else processQueueItems e items (processQueueItem e item w))"

text \<open>\<^verbatim>\<open>processQueue\<close> (lines 392 to 445).\<close>

definition processQueue :: "env \<Rightarrow> world \<Rightarrow> world" where
  "processQueue e w =
     (let items = queueItems e MAX_API_CALLS w;
          w1 = issue (QueueSelect MAX_API_CALLS) w
      in if items = [] then w1 else processQueueItems e items w1)"

text \<open>
  A listed record: the listing of \<^verbatim>\<open>processFreshVideos\<close> (lines 458 to 463) keeps the
  rows whose URL and video id are not null and whose URL is not the string "NULL", so both
  are strings in what it returns.
\<close>

record video =
  v_id :: int
  v_title :: "string option"
  v_url :: string
  v_videoId :: string

definition listed :: "row list \<Rightarrow> video list" where
  "listed rows =
     List.map_filter
       (\<lambda>r. case videoUrlColumn r of
               None \<Rightarrow> None
             | Some u \<Rightarrow>
                 (case videoIdColumn r of
                    None \<Rightarrow> None
                  | Some f \<Rightarrow>
                      if u = ''NULL'' then None
                      else Some \<lparr>v_id = row_ident r, v_title = title r, v_url = u, v_videoId = f\<rparr>))
       rows"

definition table_rows :: "string \<Rightarrow> world \<Rightarrow> row list" where
  "table_rows tableName w =
     (if tableName = ''episodes'' then episodes w
      else if tableName = ''movies'' then movies w
      else [])"

text \<open>The inner loop over \<^verbatim>\<open>j\<close> (lines 478 to 488).\<close>

fun enqueueAll :: "env \<Rightarrow> string \<Rightarrow> video list \<Rightarrow> world \<Rightarrow> world" where
  "enqueueAll e tableName [] w = w"
| "enqueueAll e tableName (v # vs) w =
     (let (added, w1) = addToQueue e tableName (v_id v) (v_videoId v) (Some (v_url v)) (v_title v) w
      in enqueueAll e tableName vs
           (if added then upd_stats (\<lambda>s. s\<lparr>queued := queued s + 1\<rparr>) w1 else w1))"

text \<open>The body of the loop over \<^verbatim>\<open>i\<close> after its budget check (lines 492 to 529).\<close>

definition sweepVideo :: "env \<Rightarrow> string \<Rightarrow> video \<Rightarrow> world \<Rightarrow> world" where
  "sweepVideo e tableName v w =
     (let w1 = upd_stats (\<lambda>s. s\<lparr>totalChecked := totalChecked s + 1\<rparr>) w;
          currentUrl = Some (v_url v);
          (isValid, w2) = isUrlValid e currentUrl w1
      in if isValid then upd_stats (\<lambda>s. s\<lparr>alreadyValid := alreadyValid s + 1\<rparr>) w2
         else
           (let (result, w3) = getFacebookVideoUrl e (v_videoId v) w2
            in case result of
                 Success u \<Rightarrow>
                   (let (updated_ok, w4) = updateVideoUrl e tableName (v_id v) u w3
                    in if updated_ok then upd_stats (\<lambda>s. s\<lparr>updated := updated s + 1\<rparr>) w4
                       else upd_stats (\<lambda>s. s\<lparr>failed := failed s + 1\<rparr>) w4)
               | Failure err msg \<Rightarrow>
                   push_failure err \<lparr>info_id = v_videoId v, info_title = v_title v\<rparr>
                     (upd_stats (\<lambda>s. s\<lparr>failed := failed s + 1\<rparr>) w3)))"

text \<open>The loop over \<^verbatim>\<open>i\<close> (lines 472 to 530): at an exhausted budget the rest is queued.\<close>

fun sweepVideos :: "env \<Rightarrow> string \<Rightarrow> video list \<Rightarrow> world \<Rightarrow> world" where
  "sweepVideos e tableName [] w = w"
| "sweepVideos e tableName (v # vs) w =
     (if apiCallsUsed (stats w) \<ge> MAX_API_CALLS then enqueueAll e tableName (v # vs) w
      else sweepVideos e tableName vs (sweepVideo e tableName v w))"

text \<open>One turn of the loop over \<^verbatim>\<open>tables\<close> (lines 455 to 531).\<close>

definition sweepTable :: "env \<Rightarrow> string \<Rightarrow> world \<Rightarrow> world" where
  "sweepTable e tableName w =
     (let r = TableSelect tableName;
          w1 = issue r w
      in if db_error e (tick w) r then w1
         else (let videos = listed (table_rows tableName w)
               in if videos = [] then w1 else sweepVideos e tableName videos w1))"

definition tables :: "string list" where
  "tables = [''episodes'', ''movies'']"

text \<open>\<^verbatim>\<open>processFreshVideos\<close> (lines 447 to 532).\<close>

definition processFreshVideos :: "env \<Rightarrow> world \<Rightarrow> world" where
  "processFreshVideos e w = fold (sweepTable e) tables w"

text \<open>
  The closing line of \<^verbatim>\<open>generateReport\<close> (lines 580 to 586):
  \<open>AllUpdated\<close> is "All expired URLs updated successfully!", \<open>AllValid\<close> is
  "All URLs are still valid. No updates needed.", \<open>QueuedNote n\<close> is
  "Note: n items queued for next 24-hour run.", and \<open>NoClosing\<close> is no line.
\<close>

definition closingLine :: "run_stats \<Rightarrow> closing" where
  "closingLine s =
     (if queued s = 0 \<and> failed s = 0 \<and> updated s > 0 then AllUpdated
      else if queued s = 0 \<and> totalChecked s = alreadyValid s then AllValid
      else if queued s > 0 then QueuedNote (queued s)
      else NoClosing)"

text \<open>\<^verbatim>\<open>sendTelegram\<close> (lines 248 to 264); a failure of the push is logged and dropped.\<close>

definition sendTelegram :: "env \<Rightarrow> notification \<Rightarrow> world \<Rightarrow> world" where
  "sendTelegram e n w = (if \<not> tg_configured e then w else issue (TelegramPost n) w)"

definition fresh_stats :: "timestamp \<Rightarrow> run_stats" where
  "fresh_stats t =
     \<lparr>totalChecked = 0, alreadyValid = 0, updated = 0, failed = 0, queued = 0,
      apiCallsUsed = 0, startTime = Some t, episodesUpdated = 0, moviesUpdated = 0,
      failures = \<lparr>notFound = [], permissionDenied = [], apiError = []\<rparr>\<rparr>"

text \<open>
  \<^verbatim>\<open>processUrlUpdates\<close> (lines 593 to 644), with the closing line of the report it logs
  and pushes. No function it calls throws in this model, so the \<^verbatim>\<open>catch\<close> is not
  reached.
\<close>

definition processUrlUpdates :: "env \<Rightarrow> world \<Rightarrow> closing \<times> world" where
  "processUrlUpdates e w =
     (let w0 = w\<lparr>stats := fresh_stats (now e (tick w))\<rparr>;
          w1 = sendTelegram e StartNote w0;
          w2 = processQueue e w1;
          w3 = (if apiCallsUsed (stats w2) < MAX_API_CALLS then processFreshVideos e w2 else w2);
          report = closingLine (stats w3)
      in (report, sendTelegram e (ReportNote report) w3))"

section \<open>Observations and example inputs\<close>

text \<open>The failure kind of a result (\<^verbatim>\<open>result.error\<close>), \<open>None\<close> for a success.\<close>

definition failure_kind :: "resolve_result \<Rightarrow> string option" where
  "failure_kind r = (case r of Success u \<Rightarrow> None | Failure k m \<Rightarrow> Some k)"

text \<open>
  An environment where no URL answers, the Graph API answers without data, the store
  accepts every request and the clock reads the request number; an empty store; and a
  store with one pending task.
\<close>

definition quiet_env :: env where
  "quiet_env =
     \<lparr>http_head = (\<lambda>t u. None), graph_get = (\<lambda>t v. Resolved None),
      db_error = (\<lambda>t r. False), now = (\<lambda>t. t), tg_configured = False\<rparr>"

definition empty_world :: world where
  "empty_world =
     \<lparr>stats = fresh_stats 0, episodes = [], movies = [], url_update_queue = [], trace = []\<rparr>"

definition pending_task :: task where
  "pending_task =
     \<lparr>queue_id = 1, table_name = ''episodes'', row_id = 7, facebook_video_id = ''f7'',
      old_url = Some ''u7'', video_title = Some ''t7'', status = ''pending'',
      error_message = None, created_at = 3, processed_at = None\<rparr>"

definition queue_world :: world where
  "queue_world = empty_world\<lparr>url_update_queue := [pending_task]\<rparr>"

text \<open>A process that has one Graph call left of its budget.\<close>

definition last_call_world :: world where
  "last_call_world = empty_world\<lparr>stats := (fresh_stats 0)\<lparr>apiCallsUsed := 189\<rparr>\<rparr>"

text \<open>Requests by kind, and the status writes of a request log: (task id, status).\<close>

definition is_insert :: "request \<Rightarrow> bool" where
  "is_insert r = (case r of QueueInsert a b c d f \<Rightarrow> True | _ \<Rightarrow> False)"

definition is_graph :: "request \<Rightarrow> bool" where
  "is_graph r = (case r of GraphGet v \<Rightarrow> True | _ \<Rightarrow> False)"

definition mark_requests :: "request list \<Rightarrow> (nat \<times> string) list" where
  "mark_requests tr =
     List.map_filter (\<lambda>r. case r of QueueUpdate i st m t \<Rightarrow> Some (i, st) | _ \<Rightarrow> None) tr"

text \<open>
  Environments where the Graph API returns a source URL: with a store that accepts
  everything, one that refuses the updates of the record tables, and one that answers
  reads and refuses every write. And a listed record.
\<close>

definition source_env :: env where
  "source_env = quiet_env\<lparr>graph_get := (\<lambda>t v. Resolved (Some (ResponseData (Some ''https://cdn/new''))))\<rparr>"

definition update_fails_env :: env where
  "update_fails_env =
     source_env\<lparr>db_error := (\<lambda>t r. case r of TableUpdate tn i u \<Rightarrow> True | _ \<Rightarrow> False)\<rparr>"

definition read_only_env :: env where
  "read_only_env =
     source_env\<lparr>db_error := (\<lambda>t r. case r of QueueSelect n \<Rightarrow> False | TableSelect tn \<Rightarrow> False | _ \<Rightarrow> True)\<rparr>"

definition video1 :: video where
  "video1 = \<lparr>v_id = 1, v_title = Some ''a'', v_url = ''u1'', v_videoId = ''f1''\<rparr>"

text \<open>
  The budget left, and how the sweep's queueing is observed: the insert request sent for a
  listed record, the columns of a task that \<^verbatim>\<open>addToQueue\<close> fills (all but the id and
  the creation time, which the store gives), and the records the two listings return, in
  the order of the sweep, each with its table.
\<close>

definition remaining :: "world \<Rightarrow> nat" where
  "remaining w = MAX_API_CALLS - apiCallsUsed (stats w)"

definition insert_request :: "string \<Rightarrow> video \<Rightarrow> request" where
  "insert_request tableName v =
     QueueInsert tableName (v_id v) (v_videoId v) (Some (v_url v)) (v_title v)"

definition payload :: "task \<Rightarrow> string \<times> int \<times> string \<times> string option \<times> string option \<times> string" where
  "payload x = (table_name x, row_id x, facebook_video_id x, old_url x, video_title x, status x)"

definition deferred :: "string \<Rightarrow> video \<Rightarrow> string \<times> int \<times> string \<times> string option \<times> string option \<times> string" where
  "deferred tableName v =
     (tableName, v_id v, v_videoId v, Some (v_url v), v_title v, ''pending'')"

definition eligible :: "world \<Rightarrow> (string \<times> video) list" where
  "eligible w =
     map (Pair ''episodes'') (listed (episodes w)) @ map (Pair ''movies'') (listed (movies w))"

text \<open>
  A store with two episodes and one movie, all listed, in a process with one call left; an
  environment where every URL answers 200; and a store whose only task is completed.
\<close>

definition sweep_world :: world where
  "sweep_world =
     last_call_world
       \<lparr>episodes :=
          [\<lparr>row_ident = 1, title = Some ''a'', videoUrlColumn = Some ''u1'', videoIdColumn = Some ''f1''\<rparr>,
           \<lparr>row_ident = 2, title = Some ''b'', videoUrlColumn = Some ''u2'', videoIdColumn = Some ''f2''\<rparr>],
        movies :=
          [\<lparr>row_ident = 3, title = Some ''c'', videoUrlColumn = Some ''u3'', videoIdColumn = Some ''f3''\<rparr>]\<rparr>"

definition ok_env :: env where
  "ok_env = quiet_env\<lparr>http_head := (\<lambda>t u. Some 200), tg_configured := True\<rparr>"

definition done_task :: task where
  "done_task = pending_task\<lparr>status := ''completed'', processed_at := Some 9\<rparr>"

definition valid_world :: world where
  "valid_world = sweep_world\<lparr>url_update_queue := [done_task]\<rparr>"

section \<open>Properties\<close>

subsection \<open>The state after a request or an assignment\<close>

lemma issue_simps [simp]:
  "stats (issue r w) = stats w"
  "episodes (issue r w) = episodes w"
  "movies (issue r w) = movies w"
  "url_update_queue (issue r w) = url_update_queue w"
  "trace (issue r w) = trace w @ [r]"
  "tick (issue r w) = Suc (tick w)"
  by (simp_all add: issue_def tick_def)

lemma upd_stats_simps [simp]:
  "stats (upd_stats f w) = f (stats w)"
  "episodes (upd_stats f w) = episodes w"
  "movies (upd_stats f w) = movies w"
  "url_update_queue (upd_stats f w) = url_update_queue w"
  "trace (upd_stats f w) = trace w"
  "tick (upd_stats f w) = tick w"
  by (simp_all add: upd_stats_def tick_def)

lemma bump_api_simps [simp]:
  "stats (bump_api w) = (stats w)\<lparr>apiCallsUsed := apiCallsUsed (stats w) + 1\<rparr>"
  "episodes (bump_api w) = episodes w"
  "movies (bump_api w) = movies w"
  "url_update_queue (bump_api w) = url_update_queue w"
  "trace (bump_api w) = trace w"
  "tick (bump_api w) = tick w"
  by (simp_all add: bump_api_def)

lemma getFacebookVideoUrl_world:
  "snd (getFacebookVideoUrl e videoId w) = bump_api (issue (GraphGet videoId) w)"
  by (simp add: getFacebookVideoUrl_def Let_def
      split: axios_outcome.split option.split response_data.split fb_error.split)


lemma includes_sublist: "includes_str hay needle = sublist needle hay"
  by (induction hay) (auto simp: sublist_Cons_right)

subsection \<open>Validity Prober and Source Resolver\<close>


text \<open>
  C1. Every call of getFacebookVideoUrl adds exactly one to stats.apiCallsUsed, whatever
  the Graph API answers: a source, no source, a structured error or a transport failure.
\<close>

theorem getFacebookVideoUrl_counts_once:
  "apiCallsUsed (stats (snd (getFacebookVideoUrl e videoId w))) = apiCallsUsed (stats w) + 1"
  by (simp add: getFacebookVideoUrl_def bump_api_def upd_stats_def issue_def Let_def
      split: axios_outcome.split option.split response_data.split fb_error.split)

text \<open>
  C6. For the null URL, the empty string and the string "NULL", isUrlValid answers false and
  sends no request: the state, with its request log, is the one it was given.
\<close>

theorem isUrlValid_sentinel:
  "isUrlValid e None w = (False, w)
   \<and> isUrlValid e (Some '''') w = (False, w)
   \<and> isUrlValid e (Some ''NULL'') w = (False, w)"
  by (simp add: isUrlValid_def)


text \<open>
  C5, the counterexample. The claim names five failure kinds and says no other is returned;
  a response without a source URL gives a sixth kind, \<^verbatim>\<open>no_source\<close>.
\<close>

theorem resolver_no_source_counterexample:
  "fst (getFacebookVideoUrl quiet_env ''1'' empty_world) = Failure ''no_source'' ''No source URL found''
   \<and> ''no_source'' \<notin> {''not_found'', ''permission_denied'', ''rate_limited'', ''api_error'',
                        ''network_error''}"
  by (simp add: getFacebookVideoUrl_def quiet_env_def Let_def)

lemma resolved_result:
  "graph_get e (tick w) videoId = Resolved d \<Longrightarrow>
   fst (getFacebookVideoUrl e videoId w) =
     (case d of
        Some (ResponseData (Some src)) \<Rightarrow>
          if src \<noteq> [] then Success src else Failure ''no_source'' ''No source URL found''
      | _ \<Rightarrow> Failure ''no_source'' ''No source URL found'')"
  by (simp add: getFacebookVideoUrl_def Let_def split: option.split response_data.split)

lemma rejected_plain_result:
  "graph_get e (tick w) videoId = Rejected emsg None \<Longrightarrow>
   fst (getFacebookVideoUrl e videoId w) = Failure ''network_error'' emsg"
  by (simp add: getFacebookVideoUrl_def Let_def)

lemma rejected_structured_result:
  "graph_get e (tick w) videoId = Rejected emsg (Some (FbError c m)) \<Longrightarrow>
   fst (getFacebookVideoUrl e videoId w) =
     (let msg = (case m of Some x \<Rightarrow> x | None \<Rightarrow> []) in
      if c = Some 100 \<or> includes_str (toLowerCase msg) ''does not exist''
      then Failure ''not_found'' ''Video not found''
      else if c = Some 200 \<or> c = Some 10 \<or> includes_str (toLowerCase msg) ''permission''
      then Failure ''permission_denied'' ''No permission''
      else if c = Some 4 \<or> c = Some 17 \<or> includes_str (toLowerCase msg) ''rate limit''
      then Failure ''rate_limit'' ''Rate limit reached''
      else Failure ''api_error'' (''API error: '' @ msg))"
  by (simp only: getFacebookVideoUrl_def Let_def axios_outcome.case option.case fb_error.case
        fst_conv if_distrib [of fst] cong: if_cong)

text \<open>
  C5, as amended. A failure has one of six kinds: \<^verbatim>\<open>no_source\<close> for a response
  without a source URL, \<^verbatim>\<open>network_error\<close> for a rejection without a structured error,
  and for a structured error the first of \<^verbatim>\<open>not_found\<close>, \<^verbatim>\<open>permission_denied\<close>,
  \<^verbatim>\<open>rate_limit\<close> whose rule matches, else \<^verbatim>\<open>api_error\<close>. A rule matches when the
  error code is one of its codes (100; 200 or 10; 4 or 17) or the lower-cased message
  contains its phrase ("does not exist"; "permission"; "rate limit").
\<close>

theorem resolver_failure_kinds:
  "failure_kind (fst (getFacebookVideoUrl e videoId w)) =
     (case graph_get e (tick w) videoId of
        Resolved d \<Rightarrow>
          (if (\<exists>src. d = Some (ResponseData (Some src)) \<and> src \<noteq> []) then None
           else Some ''no_source'')
      | Rejected emsg None \<Rightarrow> Some ''network_error''
      | Rejected emsg (Some fe) \<Rightarrow>
          (let msg = toLowerCase (case err_message fe of None \<Rightarrow> [] | Some x \<Rightarrow> x) in
           if err_code fe = Some 100 \<or> sublist ''does not exist'' msg then Some ''not_found''
           else if err_code fe \<in> {Some 200, Some 10} \<or> sublist ''permission'' msg
           then Some ''permission_denied''
           else if err_code fe \<in> {Some 4, Some 17} \<or> sublist ''rate limit'' msg
           then Some ''rate_limit''
           else Some ''api_error''))
   \<and> failure_kind (fst (getFacebookVideoUrl e videoId w)) \<in>
       {None, Some ''not_found'', Some ''permission_denied'', Some ''rate_limit'',
        Some ''api_error'', Some ''network_error'', Some ''no_source''}"
proof (cases "graph_get e (tick w) videoId")
  case (Resolved d)
  show ?thesis
    unfolding resolved_result [OF Resolved] Resolved
    by (simp add: failure_kind_def split: option.split response_data.split)
next
  case (Rejected emsg err)
  show ?thesis
  proof (cases err)
    case None
    show ?thesis
      using Rejected unfolding None
      by (simp add: rejected_plain_result failure_kind_def)
  next
    case (Some fe)
    obtain c m where fe: "fe = FbError c m" by (cases fe)
    have r: "graph_get e (tick w) videoId = Rejected emsg (Some (FbError c m))"
      using Rejected Some fe by simp
    show ?thesis
      unfolding rejected_structured_result [OF r] r
      by (simp add: failure_kind_def includes_sublist Let_def)
  qed
qed


text \<open>
  The order of the rules decides: a permission code with a "does not exist" message is
  \<^verbatim>\<open>not_found\<close>.
\<close>

lemma resolver_priority_example:
  "fst (getFacebookVideoUrl
          (quiet_env\<lparr>graph_get := (\<lambda>t v. Rejected ''Request failed with status code 400''
             (Some (FbError (Some 200) (Some ''Object DOES NOT EXIST or missing permission''))))\<rparr>)
          ''1'' empty_world)
   = Failure ''not_found'' ''Video not found''"
  by code_simp


text \<open>
  C9. testFacebookVideo changes the state in two places only: stats.apiCallsUsed is one
  higher and the request log has one more Graph lookup; the tables and the queue are
  untouched and no store request is sent. The counter is the one the loops of a run
  compare with the ceiling: a run that had one call left before the diagnostic call
  finds its budget exhausted after it (the sweep queues its next record, the drain stops).
\<close>

theorem testFacebookVideo_spends_budget:
  "snd (testFacebookVideo e videoId w) =
     w\<lparr>stats := (stats w)\<lparr>apiCallsUsed := apiCallsUsed (stats w) + 1\<rparr>,
       trace := trace w @ [GraphGet videoId]\<rparr>
   \<and> (apiCallsUsed (stats w) + 1 = MAX_API_CALLS \<longrightarrow>
        sweepVideos e tableName (v # vs) w = sweepVideos e tableName vs (sweepVideo e tableName v w)
      \<and> sweepVideos e tableName (v # vs) (snd (testFacebookVideo e videoId w))
          = enqueueAll e tableName (v # vs) (snd (testFacebookVideo e videoId w))
      \<and> processQueueItems e (item # items) w = processQueueItems e items (processQueueItem e item w)
      \<and> processQueueItems e (item # items) (snd (testFacebookVideo e videoId w))
          = snd (testFacebookVideo e videoId w))"
  by (simp add: testFacebookVideo_def getFacebookVideoUrl_world bump_api_def upd_stats_def issue_def)

theorem testFacebookVideo_spends_budget_witness:
  "apiCallsUsed (stats last_call_world) + 1 = MAX_API_CALLS
   \<and> processQueueItems quiet_env [pending_task] last_call_world
       = processQueueItem quiet_env pending_task last_call_world
   \<and> processQueueItems quiet_env [pending_task]
        (snd (testFacebookVideo quiet_env ''9'' last_call_world))
       = snd (testFacebookVideo quiet_env ''9'' last_call_world)"
  using testFacebookVideo_spends_budget
    [of quiet_env "''9''" last_call_world "''episodes''"
        "\<lparr>v_id = 1, v_title = None, v_url = ''u'', v_videoId = ''f''\<rparr>" "[]" pending_task "[]"]
  by (simp add: MAX_API_CALLS_def fresh_stats_def empty_world_def last_call_world_def)

subsection \<open>Deferred-Work Store\<close>

lemma selectPending_sorted: "sorted (map created_at (selectPending n q))"
  unfolding selectPending_def take_map [symmetric]
  by (rule sorted_wrt_take) (rule sorted_sort_key)

lemma selectPending_length:
  "length (selectPending n q) = min n (length (filter (\<lambda>x. status x = ''pending'') q))"
  by (simp add: selectPending_def min.commute)

lemma selectPending_set:
  "set (selectPending n q) \<subseteq> {x \<in> set q. status x = ''pending''}"
proof -
  have "set (selectPending n q) \<subseteq> set (sort_key created_at (filter (\<lambda>x. status x = ''pending'') q))"
    unfolding selectPending_def by (rule set_take_subset)
  then show ?thesis by auto
qed

text \<open>
  C3. For every limit and every queue, the list the drain reads has at most limit tasks,
  all of them pending tasks of the queue, in ascending order of creation time; when the
  query succeeds it has limit tasks if that many are pending.
\<close>

theorem drain_bounded_and_ordered:
  "length (queueItems e n w) \<le> n
   \<and> sorted (map created_at (queueItems e n w))
   \<and> set (queueItems e n w) \<subseteq> {x \<in> set (url_update_queue w). status x = ''pending''}
   \<and> length (selectPending n q) = min n (length (filter (\<lambda>x. status x = ''pending'') q))
   \<and> sorted (map created_at (selectPending n q))
   \<and> processQueue e w =
       (if queueItems e MAX_API_CALLS w = [] then issue (QueueSelect MAX_API_CALLS) w
        else processQueueItems e (queueItems e MAX_API_CALLS w) (issue (QueueSelect MAX_API_CALLS) w))"
proof -
  have a: "length (queueItems e n w) \<le> n"
    by (simp add: queueItems_def selectPending_length)
  have b: "sorted (map created_at (queueItems e n w))"
    by (simp add: queueItems_def selectPending_sorted)
  have c: "set (queueItems e n w) \<subseteq> {x \<in> set (url_update_queue w). status x = ''pending''}"
    using selectPending_set [of n "url_update_queue w"] by (simp add: queueItems_def)
  have d: "processQueue e w =
       (if queueItems e MAX_API_CALLS w = [] then issue (QueueSelect MAX_API_CALLS) w
        else processQueueItems e (queueItems e MAX_API_CALLS w) (issue (QueueSelect MAX_API_CALLS) w))"
    by (simp add: processQueue_def Let_def)
  from a b c d selectPending_length selectPending_sorted show ?thesis by blast
qed

subsection \<open>What each operation does to the state\<close>

lemma getFacebookVideoUrl_simps [simp]:
  "stats (snd (getFacebookVideoUrl e videoId w)) =
     (stats w)\<lparr>apiCallsUsed := apiCallsUsed (stats w) + 1\<rparr>"
  "episodes (snd (getFacebookVideoUrl e videoId w)) = episodes w"
  "movies (snd (getFacebookVideoUrl e videoId w)) = movies w"
  "url_update_queue (snd (getFacebookVideoUrl e videoId w)) = url_update_queue w"
  "trace (snd (getFacebookVideoUrl e videoId w)) = trace w @ [GraphGet videoId]"
  "tick (snd (getFacebookVideoUrl e videoId w)) = Suc (tick w)"
  by (simp_all add: getFacebookVideoUrl_world)

lemma isUrlValid_simps [simp]:
  "stats (snd (isUrlValid e u w)) = stats w"
  "episodes (snd (isUrlValid e u w)) = episodes w"
  "movies (snd (isUrlValid e u w)) = movies w"
  "url_update_queue (snd (isUrlValid e u w)) = url_update_queue w"
  by (simp_all add: isUrlValid_def split: option.split)

lemma isUrlValid_trace:
  "trace (snd (isUrlValid e u w)) =
     trace w @ (case u of None \<Rightarrow> [] | Some x \<Rightarrow> if x = [] \<or> x = ''NULL'' then [] else [HttpHead x])"
  by (simp add: isUrlValid_def split: option.split)

lemma isUrlValid_fst:
  "fst (isUrlValid e u w) =
     (\<exists>x. u = Some x \<and> x \<noteq> [] \<and> x \<noteq> ''NULL'' \<and> http_head e (tick w) x = Some 200)"
  by (auto simp add: isUrlValid_def validateStatus_def split: option.split)

lemma updateVideoUrl_fst:
  "fst (updateVideoUrl e tableName rowId newUrl w) =
     ((tableName = ''episodes'' \<or> tableName = ''movies'')
      \<and> \<not> db_error e (tick w) (TableUpdate tableName rowId newUrl))"
  by (simp add: updateVideoUrl_def Let_def)

lemma updateVideoUrl_simps [simp]:
  "url_update_queue (snd (updateVideoUrl e tableName rowId newUrl w)) = url_update_queue w"
  "trace (snd (updateVideoUrl e tableName rowId newUrl w)) =
     trace w @ (if tableName = ''episodes'' \<or> tableName = ''movies''
                then [TableUpdate tableName rowId newUrl] else [])"
  "stats (snd (updateVideoUrl e tableName rowId newUrl w)) =
     (if fst (updateVideoUrl e tableName rowId newUrl w)
      then (if tableName = ''episodes''
            then (stats w)\<lparr>episodesUpdated := episodesUpdated (stats w) + 1\<rparr>
            else (stats w)\<lparr>moviesUpdated := moviesUpdated (stats w) + 1\<rparr>)
      else stats w)"
  "episodes (snd (updateVideoUrl e tableName rowId newUrl w)) =
     (if fst (updateVideoUrl e tableName rowId newUrl w) \<and> tableName = ''episodes''
      then set_url rowId newUrl (episodes w) else episodes w)"
  "movies (snd (updateVideoUrl e tableName rowId newUrl w)) =
     (if fst (updateVideoUrl e tableName rowId newUrl w) \<and> tableName = ''movies''
      then set_url rowId newUrl (movies w) else movies w)"
  by (simp_all add: updateVideoUrl_def Let_def)

lemma markQueueProcessed_simps [simp]:
  "stats (markQueueProcessed e queueId st msg w) = stats w"
  "episodes (markQueueProcessed e queueId st msg w) = episodes w"
  "movies (markQueueProcessed e queueId st msg w) = movies w"
  "trace (markQueueProcessed e queueId st msg w) =
     trace w @ [QueueUpdate queueId st msg (now e (tick w))]"
  "tick (markQueueProcessed e queueId st msg w) = Suc (tick w)"
  by (simp_all add: markQueueProcessed_def Let_def tick_def)

lemma markQueueProcessed_queue:
  "url_update_queue (markQueueProcessed e queueId st msg w) =
     (if db_error e (tick w) (QueueUpdate queueId st msg (now e (tick w)))
      then url_update_queue w
      else map (\<lambda>x. if queue_id x = queueId
                    then x\<lparr>status := st, processed_at := Some (now e (tick w)),
                           error_message := msg\<rparr>
                    else x)
               (url_update_queue w))"
  by (simp add: markQueueProcessed_def Let_def)

lemma addToQueue_fst:
  "fst (addToQueue e tableName rowId videoId oldUrl ttl w) =
     (\<not> db_error e (tick w) (QueueInsert tableName rowId videoId oldUrl ttl))"
  by (simp add: addToQueue_def Let_def)

lemma addToQueue_simps [simp]:
  "stats (snd (addToQueue e tableName rowId videoId oldUrl ttl w)) = stats w"
  "episodes (snd (addToQueue e tableName rowId videoId oldUrl ttl w)) = episodes w"
  "movies (snd (addToQueue e tableName rowId videoId oldUrl ttl w)) = movies w"
  "trace (snd (addToQueue e tableName rowId videoId oldUrl ttl w)) =
     trace w @ [QueueInsert tableName rowId videoId oldUrl ttl]"
  by (simp_all add: addToQueue_def Let_def)

lemma push_failure_simps [simp]:
  "episodes (push_failure err info w) = episodes w"
  "movies (push_failure err info w) = movies w"
  "url_update_queue (push_failure err info w) = url_update_queue w"
  "trace (push_failure err info w) = trace w"
  "tick (push_failure err info w) = tick w"
  by (simp_all add: push_failure_def)

lemma push_failure_stats:
  "apiCallsUsed (stats (push_failure err info w)) = apiCallsUsed (stats w)"
  "queued (stats (push_failure err info w)) = queued (stats w)"
  "failed (stats (push_failure err info w)) = failed (stats w)"
  "updated (stats (push_failure err info w)) = updated (stats w)"
  "totalChecked (stats (push_failure err info w)) = totalChecked (stats w)"
  "alreadyValid (stats (push_failure err info w)) = alreadyValid (stats w)"
  by (simp_all add: push_failure_def)

subsection \<open>A failed record write\<close>

text \<open>
  C10. In the sweep, when the probe says invalid, the resolver succeeds and updateVideoUrl
  returns false, the record costs one check, one API call and one count of failed and
  nothing else: the failure buckets, the queue (no insert is even sent) and both tables
  are as before.
\<close>

theorem sweep_update_failure_is_anonymous:
  assumes "isUrlValid e (Some (v_url v))
             (upd_stats (\<lambda>s. s\<lparr>totalChecked := totalChecked s + 1\<rparr>) w) = (False, w2)"
      and "getFacebookVideoUrl e (v_videoId v) w2 = (Success u, w3)"
      and "updateVideoUrl e tableName (v_id v) u w3 = (False, w4)"
  shows "stats (sweepVideo e tableName v w) =
           (stats w)\<lparr>totalChecked := totalChecked (stats w) + 1,
                     apiCallsUsed := apiCallsUsed (stats w) + 1,
                     failed := failed (stats w) + 1\<rparr>
         \<and> failures (stats (sweepVideo e tableName v w)) = failures (stats w)
         \<and> url_update_queue (sweepVideo e tableName v w) = url_update_queue w
         \<and> filter is_insert (trace (sweepVideo e tableName v w)) = filter is_insert (trace w)
         \<and> episodes (sweepVideo e tableName v w) = episodes w
         \<and> movies (sweepVideo e tableName v w) = movies w"
proof -
  have s: "sweepVideo e tableName v w = upd_stats (\<lambda>s. s\<lparr>failed := failed s + 1\<rparr>) w4"
    using assms by (simp add: sweepVideo_def Let_def)
  have w2: "w2 = snd (isUrlValid e (Some (v_url v))
             (upd_stats (\<lambda>s. s\<lparr>totalChecked := totalChecked s + 1\<rparr>) w))"
    using assms(1) by simp
  have w3: "w3 = snd (getFacebookVideoUrl e (v_videoId v) w2)"
    using assms(2) by simp
  have w4: "w4 = snd (updateVideoUrl e tableName (v_id v) u w3)"
    and f: "\<not> fst (updateVideoUrl e tableName (v_id v) u w3)"
    using assms(3) by simp_all
  have st: "stats w4 = (stats w)\<lparr>totalChecked := totalChecked (stats w) + 1,
                     apiCallsUsed := apiCallsUsed (stats w) + 1\<rparr>"
    using f by (simp add: w4 w3 w2)
  have q: "url_update_queue w4 = url_update_queue w"
    by (simp add: w4 w3 w2)
  have ep: "episodes w4 = episodes w" "movies w4 = movies w"
    using f by (simp_all add: w4 w3 w2)
  have tr: "filter is_insert (trace w4) = filter is_insert (trace w)"
    by (simp add: w4 w3 w2 isUrlValid_trace is_insert_def)
  show ?thesis
    by (simp add: s st q ep tr)
qed

theorem sweep_update_failure_is_anonymous_witness:
  "stats (sweepVideo update_fails_env ''episodes'' video1 empty_world) =
     (fresh_stats 0)\<lparr>totalChecked := 1, apiCallsUsed := 1, failed := 1\<rparr>
   \<and> url_update_queue (sweepVideo update_fails_env ''episodes'' video1 empty_world) = []"
proof -
  let ?w1 = "upd_stats (\<lambda>s. s\<lparr>totalChecked := totalChecked s + 1\<rparr>) empty_world"
  let ?w2 = "snd (isUrlValid update_fails_env (Some (v_url video1)) ?w1)"
  let ?w3 = "snd (getFacebookVideoUrl update_fails_env (v_videoId video1) ?w2)"
  let ?w4 = "snd (updateVideoUrl update_fails_env ''episodes'' (v_id video1) ''https://cdn/new'' ?w3)"
  have h1: "isUrlValid update_fails_env (Some (v_url video1)) ?w1 = (False, ?w2)"
    by (simp add: isUrlValid_def update_fails_env_def source_env_def quiet_env_def video1_def)
  have h2: "getFacebookVideoUrl update_fails_env (v_videoId video1) ?w2 = (Success ''https://cdn/new'', ?w3)"
    by (simp add: getFacebookVideoUrl_def Let_def update_fails_env_def source_env_def quiet_env_def)
  have h3: "updateVideoUrl update_fails_env ''episodes'' (v_id video1) ''https://cdn/new'' ?w3 = (False, ?w4)"
    by (simp add: updateVideoUrl_def Let_def update_fails_env_def source_env_def quiet_env_def)
  show ?thesis
    using sweep_update_failure_is_anonymous [OF h1 h2 h3]
    by (simp add: empty_world_def fresh_stats_def)
qed

text \<open>
  C7, the counterexample. The store answers reads and refuses writes: the record update
  fails, the status write is sent with the message "Database update failed" and refused
  too, and the task is still pending after the drain.
\<close>

theorem drain_update_failure_counterexample:
  "map status (url_update_queue (processQueue read_only_env queue_world)) = [''pending'']
   \<and> failed (stats (processQueue read_only_env queue_world)) = 1
   \<and> trace (processQueue read_only_env queue_world) =
       [QueueSelect 190, GraphGet ''f7'', TableUpdate ''episodes'' 7 ''https://cdn/new'',
        QueueUpdate 1 ''failed'' (Some ''Database update failed'') 3]"
  by code_simp

text \<open>
  C7, as amended. In the drain, when the resolver succeeds and updateVideoUrl returns false,
  the failed counter goes up by one and one status write is sent for the task: status
  "failed", message "Database update failed". If the store accepts that write the task's
  row holds that status, that message and the time of the write; if it refuses, the row
  is left as it was (markQueueProcessed does not read the outcome).
\<close>

theorem drain_update_failure_marks_failed:
  assumes "getFacebookVideoUrl e (facebook_video_id item) w = (Success u, w1)"
      and "updateVideoUrl e (table_name item) (row_id item) u w1 = (False, w2)"
  shows "trace (processQueueItem e item w) =
           trace w2 @ [QueueUpdate (queue_id item) ''failed'' (Some ''Database update failed'')
                         (now e (tick w2))]
         \<and> stats (processQueueItem e item w) =
             (stats w)\<lparr>apiCallsUsed := apiCallsUsed (stats w) + 1, failed := failed (stats w) + 1\<rparr>
         \<and> url_update_queue (processQueueItem e item w) =
             (if db_error e (tick w2)
                   (QueueUpdate (queue_id item) ''failed'' (Some ''Database update failed'')
                      (now e (tick w2)))
              then url_update_queue w
              else map (\<lambda>x. if queue_id x = queue_id item
                            then x\<lparr>status := ''failed'', processed_at := Some (now e (tick w2)),
                                   error_message := Some ''Database update failed''\<rparr>
                            else x)
                       (url_update_queue w))
         \<and> episodes (processQueueItem e item w) = episodes w
         \<and> movies (processQueueItem e item w) = movies w"
proof -
  let ?m = "markQueueProcessed e (queue_id item) ''failed'' (Some ''Database update failed'') w2"
  have s: "processQueueItem e item w = upd_stats (\<lambda>s. s\<lparr>failed := failed s + 1\<rparr>) ?m"
    using assms by (simp add: processQueueItem_def Let_def)
  have w1: "w1 = snd (getFacebookVideoUrl e (facebook_video_id item) w)"
    using assms(1) by simp
  have w2: "w2 = snd (updateVideoUrl e (table_name item) (row_id item) u w1)"
    and f: "\<not> fst (updateVideoUrl e (table_name item) (row_id item) u w1)"
    using assms(2) by simp_all
  have st: "stats w2 = (stats w)\<lparr>apiCallsUsed := apiCallsUsed (stats w) + 1\<rparr>"
    using f by (simp add: w2 w1)
  have q: "url_update_queue w2 = url_update_queue w"
    by (simp add: w2 w1)
  have ep: "episodes w2 = episodes w" "movies w2 = movies w"
    using f by (simp_all add: w2 w1)
  show ?thesis
    by (simp add: s st q ep markQueueProcessed_queue)
qed

theorem drain_update_failure_marks_failed_witness:
  "map status (url_update_queue (processQueueItem update_fails_env pending_task queue_world)) = [''failed'']
   \<and> map error_message (url_update_queue (processQueueItem update_fails_env pending_task queue_world))
       = [Some ''Database update failed'']
   \<and> failed (stats (processQueueItem update_fails_env pending_task queue_world)) = 1"
proof -
  let ?w1 = "snd (getFacebookVideoUrl update_fails_env (facebook_video_id pending_task) queue_world)"
  let ?w2 = "snd (updateVideoUrl update_fails_env (table_name pending_task) (row_id pending_task)
                    ''https://cdn/new'' ?w1)"
  have h1: "getFacebookVideoUrl update_fails_env (facebook_video_id pending_task) queue_world
              = (Success ''https://cdn/new'', ?w1)"
    by (simp add: getFacebookVideoUrl_def Let_def update_fails_env_def source_env_def quiet_env_def)
  have h2: "updateVideoUrl update_fails_env (table_name pending_task) (row_id pending_task)
              ''https://cdn/new'' ?w1 = (False, ?w2)"
    by (simp add: updateVideoUrl_def Let_def update_fails_env_def source_env_def quiet_env_def
        pending_task_def)
  show ?thesis
    using drain_update_failure_marks_failed [OF h1 h2]
    by (simp add: update_fails_env_def source_env_def quiet_env_def queue_world_def
        empty_world_def pending_task_def fresh_stats_def)
qed

subsection \<open>Status writes\<close>

lemma mark_requests_append [simp]:
  "mark_requests (xs @ ys) = mark_requests xs @ mark_requests ys"
  by (simp add: mark_requests_def map_filter_def)

lemma mark_requests_Cons [simp]:
  "mark_requests (QueueUpdate i st m t # rs) = (i, st) # mark_requests rs"
  "mark_requests (GraphGet v # rs) = mark_requests rs"
  "mark_requests (TableUpdate tn rid u # rs) = mark_requests rs"
  "mark_requests (QueueSelect n # rs) = mark_requests rs"
  "mark_requests [] = []"
  by (simp_all add: mark_requests_def map_filter_def)

lemma processQueueItem_marks:
  "\<exists>st \<in> {''completed'', ''failed''}.
     mark_requests (trace (processQueueItem e item w)) =
       mark_requests (trace w) @ [(queue_id item, st)]"
  by (simp add: processQueueItem_def Let_def case_prod_unfold split: resolve_result.split)

lemma processQueueItems_marks:
  "set (mark_requests (trace (processQueueItems e items w))) \<subseteq>
     set (mark_requests (trace w)) \<union> queue_id ` set items \<times> {''completed'', ''failed''}"
proof (induction items arbitrary: w)
  case Nil
  show ?case by simp
next
  case (Cons item items)
  show ?case
  proof (cases "apiCallsUsed (stats w) \<ge> MAX_API_CALLS")
    case True
    then show ?thesis by auto
  next
    case False
    have "set (mark_requests (trace (processQueueItems e items (processQueueItem e item w))))
            \<subseteq> set (mark_requests (trace (processQueueItem e item w)))
               \<union> queue_id ` set items \<times> {''completed'', ''failed''}"
      by (rule Cons.IH)
    also have "\<dots> \<subseteq> (set (mark_requests (trace w)) \<union> {queue_id item} \<times> {''completed'', ''failed''})
               \<union> queue_id ` set items \<times> {''completed'', ''failed''}"
      using processQueueItem_marks [of e item w] by fastforce
    finally have "set (mark_requests (trace (processQueueItems e items (processQueueItem e item w))))
            \<subseteq> set (mark_requests (trace w))
               \<union> queue_id ` set (item # items) \<times> {''completed'', ''failed''}"
      by (simp add: Sigma_Un_distrib1 Un_assoc [symmetric])
    then show ?thesis using False by simp
  qed
qed

lemma processQueue_marks:
  "set (mark_requests (trace (processQueue e w))) \<subseteq>
     set (mark_requests (trace w))
     \<union> queue_id ` set (queueItems e MAX_API_CALLS w) \<times> {''completed'', ''failed''}"
  using processQueueItems_marks [of e "queueItems e MAX_API_CALLS w" "issue (QueueSelect MAX_API_CALLS) w"]
  by (simp add: processQueue_def Let_def)

lemma remark_same:
  "map (\<lambda>x. x\<lparr>processed_at := None\<rparr>)
     (map (\<lambda>x. if queue_id x = i then x\<lparr>status := st, processed_at := t2, error_message := m\<rparr> else x)
        (map (\<lambda>x. if queue_id x = i then x\<lparr>status := st, processed_at := t1, error_message := m\<rparr> else x) q))
   = map (\<lambda>x. x\<lparr>processed_at := None\<rparr>)
       (map (\<lambda>x. if queue_id x = i then x\<lparr>status := st, processed_at := t1, error_message := m\<rparr> else x) q)"
  by (induction q) simp_all

text \<open>
  C4, the counterexample. A second markQueueProcessed with the same status is not a no-op:
  the row gets a new processed time. And the function does not look at the present status:
  called with "failed" on a completed task it makes the task failed.
\<close>

theorem markQueueProcessed_counterexample:
  "url_update_queue
     (markQueueProcessed quiet_env 1 ''completed'' None
        (markQueueProcessed quiet_env 1 ''completed'' None queue_world))
     \<noteq> url_update_queue (markQueueProcessed quiet_env 1 ''completed'' None queue_world)
   \<and> map status (url_update_queue (markQueueProcessed quiet_env 1 ''completed'' None queue_world))
       = [''completed'']
   \<and> map status
       (url_update_queue
          (markQueueProcessed quiet_env 1 ''failed'' (Some ''Video not found'')
             (markQueueProcessed quiet_env 1 ''completed'' None queue_world)))
       = [''failed'']"
proof -
  have a: "map processed_at (url_update_queue (markQueueProcessed quiet_env 1 ''completed'' None queue_world)) = [Some 0]"
    by code_simp
  have b: "map processed_at (url_update_queue
     (markQueueProcessed quiet_env 1 ''completed'' None
        (markQueueProcessed quiet_env 1 ''completed'' None queue_world))) = [Some 1]"
    by code_simp
  have c: "map status (url_update_queue (markQueueProcessed quiet_env 1 ''completed'' None queue_world))
       = [''completed'']"
    by code_simp
  have d: "map status
       (url_update_queue
          (markQueueProcessed quiet_env 1 ''failed'' (Some ''Video not found'')
             (markQueueProcessed quiet_env 1 ''completed'' None queue_world)))
       = [''failed'']"
    by code_simp
  from a b have "url_update_queue
     (markQueueProcessed quiet_env 1 ''completed'' None
        (markQueueProcessed quiet_env 1 ''completed'' None queue_world))
     \<noteq> url_update_queue (markQueueProcessed quiet_env 1 ''completed'' None queue_world)"
    by auto
  with c d show ?thesis by simp
qed

text \<open>
  C4, as amended. An accepted markQueueProcessed writes the given status, the given message
  and the present time into the rows with the given id, whatever their status was, and
  changes nothing else; a refused one changes nothing. A second call with the same status
  and message changes at most the processed time. The run itself sends status writes only
  with "completed" or "failed", and only for tasks its drain query returned as pending.
\<close>

theorem markQueueProcessed_overwrites:
  "url_update_queue (markQueueProcessed e queueId st msg w) =
     (if db_error e (tick w) (QueueUpdate queueId st msg (now e (tick w)))
      then url_update_queue w
      else map (\<lambda>x. if queue_id x = queueId
                    then x\<lparr>status := st, processed_at := Some (now e (tick w)),
                           error_message := msg\<rparr>
                    else x)
               (url_update_queue w))
   \<and> stats (markQueueProcessed e queueId st msg w) = stats w
   \<and> episodes (markQueueProcessed e queueId st msg w) = episodes w
   \<and> movies (markQueueProcessed e queueId st msg w) = movies w
   \<and> (\<not> db_error e (tick w) (QueueUpdate queueId st msg (now e (tick w))) \<longrightarrow>
        map (\<lambda>x. x\<lparr>processed_at := None\<rparr>)
          (url_update_queue (markQueueProcessed e queueId st msg (markQueueProcessed e queueId st msg w)))
        = map (\<lambda>x. x\<lparr>processed_at := None\<rparr>)
            (url_update_queue (markQueueProcessed e queueId st msg w)))
   \<and> set (mark_requests (trace (processQueue e w))) \<subseteq>
       set (mark_requests (trace w))
       \<union> queue_id ` set (queueItems e MAX_API_CALLS w) \<times> {''completed'', ''failed''}"
proof -
  let ?m = "markQueueProcessed e queueId st msg"
  have twice: "map (\<lambda>x. x\<lparr>processed_at := None\<rparr>) (url_update_queue (?m (?m w)))
        = map (\<lambda>x. x\<lparr>processed_at := None\<rparr>) (url_update_queue (?m w))"
    if ok: "\<not> db_error e (tick w) (QueueUpdate queueId st msg (now e (tick w)))"
  proof (cases "db_error e (tick (?m w)) (QueueUpdate queueId st msg (now e (tick (?m w))))")
    case True
    then show ?thesis by (simp only: markQueueProcessed_queue [of e queueId st msg "?m w"] if_True)
  next
    case False
    show ?thesis
      unfolding markQueueProcessed_queue [of e queueId st msg "?m w"]
      unfolding markQueueProcessed_queue [of e queueId st msg w]
      using ok False by (simp only: if_False remark_same)
  qed
  show ?thesis
    using twice processQueue_marks [of e w]
    by (simp add: markQueueProcessed_queue)
qed

theorem markQueueProcessed_overwrites_witness:
  "\<not> db_error quiet_env (tick queue_world)
        (QueueUpdate 1 ''completed'' None (now quiet_env (tick queue_world)))
   \<and> map (\<lambda>x. x\<lparr>processed_at := None\<rparr>)
        (url_update_queue
           (markQueueProcessed quiet_env 1 ''completed'' None
              (markQueueProcessed quiet_env 1 ''completed'' None queue_world)))
     = map (\<lambda>x. x\<lparr>processed_at := None\<rparr>)
         (url_update_queue (markQueueProcessed quiet_env 1 ''completed'' None queue_world))"
proof -
  have ok: "\<not> db_error quiet_env (tick queue_world)
        (QueueUpdate 1 ''completed'' None (now quiet_env (tick queue_world)))"
    by (simp add: quiet_env_def)
  with markQueueProcessed_overwrites [of quiet_env 1 "''completed''" None queue_world]
  show ?thesis by blast
qed

subsection \<open>Queueing the rest of a listing\<close>

lemma is_graph_simps [simp]:
  "is_graph (GraphGet v)"
  "\<not> is_graph (HttpHead u)"
  "\<not> is_graph (TableUpdate tn i u)"
  "\<not> is_graph (TableSelect tn)"
  "\<not> is_graph (QueueInsert a b c d f)"
  by (simp_all add: is_graph_def)

lemma is_insert_simps [simp]:
  "is_insert (QueueInsert a b c d f)"
  "\<not> is_insert (GraphGet v)"
  "\<not> is_insert (HttpHead u)"
  "\<not> is_insert (TableUpdate tn i u)"
  "\<not> is_insert (TableSelect tn)"
  by (simp_all add: is_insert_def)

lemma addToQueue_queue:
  "map payload (url_update_queue (snd (addToQueue e tableName rowId videoId oldUrl ttl w))) =
     map payload (url_update_queue w) @
       (if fst (addToQueue e tableName rowId videoId oldUrl ttl w)
        then [(tableName, rowId, videoId, oldUrl, ttl, ''pending'')] else [])"
  "length (url_update_queue (snd (addToQueue e tableName rowId videoId oldUrl ttl w))) =
     length (url_update_queue w) +
       (if fst (addToQueue e tableName rowId videoId oldUrl ttl w) then 1 else 0)"
  by (simp_all add: addToQueue_def Let_def payload_def)

declare enqueueAll.simps [simp del]

lemma enqueueAll_frame:
  "apiCallsUsed (stats (enqueueAll e tn vs w)) = apiCallsUsed (stats w)"
  "episodes (enqueueAll e tn vs w) = episodes w"
  "movies (enqueueAll e tn vs w) = movies w"
  by (induction vs arbitrary: w) (simp_all add: enqueueAll.simps case_prod_unfold Let_def)

lemma enqueueAll_trace:
  "filter is_graph (trace (enqueueAll e tn vs w)) = filter is_graph (trace w)"
  "filter is_insert (trace (enqueueAll e tn vs w)) =
     filter is_insert (trace w) @ map (insert_request tn) vs"
  by (induction vs arbitrary: w) (simp_all add: enqueueAll.simps case_prod_unfold Let_def insert_request_def)

lemma enqueueAll_counted:
  "queued (stats (enqueueAll e tn vs w)) + length (url_update_queue w) =
     queued (stats w) + length (url_update_queue (enqueueAll e tn vs w))"
proof (induction vs arbitrary: w)
  case Nil
  show ?case by (simp add: enqueueAll.simps)
next
  case (Cons v vs)
  let ?a = "addToQueue e tn (v_id v) (v_videoId v) (Some (v_url v)) (v_title v) w"
  let ?w = "if fst ?a then upd_stats (\<lambda>s. s\<lparr>queued := queued s + 1\<rparr>) (snd ?a) else snd ?a"
  have step: "enqueueAll e tn (v # vs) w = enqueueAll e tn vs ?w"
    by (simp add: enqueueAll.simps case_prod_unfold Let_def)
  have one: "queued (stats ?w) + length (url_update_queue w) =
               queued (stats w) + length (url_update_queue ?w)"
    by (simp add: addToQueue_queue)
  from Cons.IH [of ?w] one show ?case
    unfolding step by linarith
qed

lemma enqueueAll_accepted:
  assumes "\<forall>t r. is_insert r \<longrightarrow> \<not> db_error e t r"
  shows "map payload (url_update_queue (enqueueAll e tn vs w)) =
           map payload (url_update_queue w) @ map (deferred tn) vs"
  using assms
  by (induction vs arbitrary: w)
     (simp_all add: enqueueAll.simps case_prod_unfold Let_def addToQueue_queue addToQueue_fst deferred_def)

subsection \<open>The sweep when every probe says invalid\<close>

lemma sweepVideo_queue:
  "url_update_queue (sweepVideo e tn v w) = url_update_queue w"
  "queued (stats (sweepVideo e tn v w)) = queued (stats w)"
  by (simp_all add: sweepVideo_def Let_def case_prod_unfold push_failure_stats
      split: resolve_result.split)

lemma sweepVideo_inserts:
  "filter is_insert (trace (sweepVideo e tn v w)) = filter is_insert (trace w)"
  by (simp add: sweepVideo_def Let_def case_prod_unfold isUrlValid_trace
      split: resolve_result.split)

lemma sweepVideo_other_table:
  "tn \<noteq> ''episodes'' \<Longrightarrow> episodes (sweepVideo e tn v w) = episodes w"
  "tn \<noteq> ''movies'' \<Longrightarrow> movies (sweepVideo e tn v w) = movies w"
  by (simp_all add: sweepVideo_def Let_def case_prod_unfold split: resolve_result.split)

lemma sweepVideo_invalid:
  assumes "\<forall>t. http_head e t (v_url v) \<noteq> Some 200"
  shows "apiCallsUsed (stats (sweepVideo e tn v w)) = apiCallsUsed (stats w) + 1"
    and "filter is_graph (trace (sweepVideo e tn v w)) =
           filter is_graph (trace w) @ [GraphGet (v_videoId v)]"
  using assms
  by (simp_all add: sweepVideo_def Let_def case_prod_unfold isUrlValid_fst isUrlValid_trace
      push_failure_stats split: resolve_result.split)

lemma sweepVideos_other_table:
  "tn \<noteq> ''episodes'' \<Longrightarrow> episodes (sweepVideos e tn vs w) = episodes w"
  "tn \<noteq> ''movies'' \<Longrightarrow> movies (sweepVideos e tn vs w) = movies w"
  by (induction vs arbitrary: w) (simp_all add: enqueueAll_frame sweepVideo_other_table)

lemma sweepVideos_counted:
  "queued (stats (sweepVideos e tn vs w)) + length (url_update_queue w) =
     queued (stats w) + length (url_update_queue (sweepVideos e tn vs w))"
proof (induction vs arbitrary: w)
  case Nil
  show ?case by simp
next
  case (Cons v vs)
  show ?case
  proof (cases "apiCallsUsed (stats w) \<ge> MAX_API_CALLS")
    case True
    then show ?thesis using enqueueAll_counted [of e tn "v # vs" w] by simp
  next
    case False
    then show ?thesis using Cons.IH [of "sweepVideo e tn v w"] by (simp add: sweepVideo_queue)
  qed
qed

lemma remaining_step:
  "\<not> MAX_API_CALLS \<le> apiCallsUsed (stats w) \<Longrightarrow>
   apiCallsUsed (stats w') = apiCallsUsed (stats w) + 1 \<Longrightarrow>
   remaining w = Suc (remaining w')"
  by (simp add: remaining_def)

lemma remaining_zero:
  "MAX_API_CALLS \<le> apiCallsUsed (stats w) \<Longrightarrow> remaining w = 0"
  by (simp add: remaining_def)

lemma sweepVideos_invalid_calls:
  assumes "\<forall>v \<in> set vs. \<forall>t. http_head e t (v_url v) \<noteq> Some 200"
  shows "apiCallsUsed (stats (sweepVideos e tn vs w)) =
           apiCallsUsed (stats w) + min (length vs) (remaining w)"
  using assms
proof (induction vs arbitrary: w)
  case Nil
  show ?case by simp
next
  case (Cons v vs)
  have inv: "\<forall>t. http_head e t (v_url v) \<noteq> Some 200"
    and rest: "\<forall>v \<in> set vs. \<forall>t. http_head e t (v_url v) \<noteq> Some 200"
    using Cons.prems by simp_all
  show ?case
  proof (cases "apiCallsUsed (stats w) \<ge> MAX_API_CALLS")
    case True
    then show ?thesis by (simp add: enqueueAll_frame remaining_zero)
  next
    case False
    have r: "remaining w = Suc (remaining (sweepVideo e tn v w))"
      using False sweepVideo_invalid(1) [OF inv] by (rule remaining_step)
    show ?thesis
      using False Cons.IH [OF rest, of "sweepVideo e tn v w"]
      by (simp add: r sweepVideo_invalid(1) [OF inv])
  qed
qed

lemma sweepVideos_invalid_graph:
  assumes "\<forall>v \<in> set vs. \<forall>t. http_head e t (v_url v) \<noteq> Some 200"
  shows "filter is_graph (trace (sweepVideos e tn vs w)) =
           filter is_graph (trace w) @ map (\<lambda>v. GraphGet (v_videoId v)) (take (remaining w) vs)"
  using assms
proof (induction vs arbitrary: w)
  case Nil
  show ?case by simp
next
  case (Cons v vs)
  have inv: "\<forall>t. http_head e t (v_url v) \<noteq> Some 200"
    and rest: "\<forall>v \<in> set vs. \<forall>t. http_head e t (v_url v) \<noteq> Some 200"
    using Cons.prems by simp_all
  show ?case
  proof (cases "apiCallsUsed (stats w) \<ge> MAX_API_CALLS")
    case True
    then show ?thesis by (simp add: enqueueAll_trace remaining_zero)
  next
    case False
    have r: "remaining w = Suc (remaining (sweepVideo e tn v w))"
      using False sweepVideo_invalid(1) [OF inv] by (rule remaining_step)
    show ?thesis
      using False Cons.IH [OF rest, of "sweepVideo e tn v w"]
      by (simp add: r sweepVideo_invalid(2) [OF inv])
  qed
qed

lemma sweepVideos_invalid_inserts:
  assumes "\<forall>v \<in> set vs. \<forall>t. http_head e t (v_url v) \<noteq> Some 200"
  shows "filter is_insert (trace (sweepVideos e tn vs w)) =
           filter is_insert (trace w) @ map (insert_request tn) (drop (remaining w) vs)"
  using assms
proof (induction vs arbitrary: w)
  case Nil
  show ?case by simp
next
  case (Cons v vs)
  have inv: "\<forall>t. http_head e t (v_url v) \<noteq> Some 200"
    and rest: "\<forall>v \<in> set vs. \<forall>t. http_head e t (v_url v) \<noteq> Some 200"
    using Cons.prems by simp_all
  show ?case
  proof (cases "apiCallsUsed (stats w) \<ge> MAX_API_CALLS")
    case True
    then show ?thesis by (simp add: enqueueAll_trace remaining_zero)
  next
    case False
    have r: "remaining w = Suc (remaining (sweepVideo e tn v w))"
      using False sweepVideo_invalid(1) [OF inv] by (rule remaining_step)
    show ?thesis
      using False Cons.IH [OF rest, of "sweepVideo e tn v w"]
      by (simp add: r sweepVideo_inserts)
  qed
qed

lemma sweepVideos_accepted:
  assumes "\<forall>v \<in> set vs. \<forall>t. http_head e t (v_url v) \<noteq> Some 200"
      and acc: "\<forall>t r. is_insert r \<longrightarrow> \<not> db_error e t r"
  shows "map payload (url_update_queue (sweepVideos e tn vs w)) =
           map payload (url_update_queue w) @ map (deferred tn) (drop (remaining w) vs)"
  using assms(1)
proof (induction vs arbitrary: w)
  case Nil
  show ?case by simp
next
  case (Cons v vs)
  have inv: "\<forall>t. http_head e t (v_url v) \<noteq> Some 200"
    and rest: "\<forall>v \<in> set vs. \<forall>t. http_head e t (v_url v) \<noteq> Some 200"
    using Cons.prems by simp_all
  show ?case
  proof (cases "apiCallsUsed (stats w) \<ge> MAX_API_CALLS")
    case True
    then show ?thesis
      using enqueueAll_accepted [OF acc, of tn "v # vs" w] by (simp add: remaining_zero)
  next
    case False
    have r: "remaining w = Suc (remaining (sweepVideo e tn v w))"
      using False sweepVideo_invalid(1) [OF inv] by (rule remaining_step)
    show ?thesis
      using False Cons.IH [OF rest, of "sweepVideo e tn v w"]
      by (simp add: r sweepVideo_queue)
  qed
qed

lemma remaining_issue [simp]: "remaining (issue r w) = remaining w"
  by (simp add: remaining_def)

lemma table_rows_issue [simp]: "table_rows tn (issue r w) = table_rows tn w"
  by (simp add: table_rows_def)

lemma sweepTable_listed:
  "\<not> db_error e (tick w) (TableSelect tn) \<Longrightarrow>
   sweepTable e tn w = sweepVideos e tn (listed (table_rows tn w)) (issue (TableSelect tn) w)"
  by (simp add: sweepTable_def Let_def)

lemma sweepTable_counted:
  "queued (stats (sweepTable e tn w)) + length (url_update_queue w) =
     queued (stats w) + length (url_update_queue (sweepTable e tn w))"
  using sweepVideos_counted [of e tn "listed (table_rows tn w)" "issue (TableSelect tn) w"]
  by (simp add: sweepTable_def Let_def)

lemma processFreshVideos_unfold:
  "processFreshVideos e w = sweepTable e ''movies'' (sweepTable e ''episodes'' w)"
  by (simp add: processFreshVideos_def tables_def)

lemma processFreshVideos_counted:
  "queued (stats (processFreshVideos e w)) + length (url_update_queue w) =
     queued (stats w) + length (url_update_queue (processFreshVideos e w))"
  using sweepTable_counted [of e "''episodes''" w]
        sweepTable_counted [of e "''movies''" "sweepTable e ''episodes'' w"]
  unfolding processFreshVideos_unfold by linarith

lemma take_eligible:
  "map f (take n (map (Pair a) xs @ map (Pair b) ys)) =
     map (\<lambda>v. f (a, v)) (take n xs) @ map (\<lambda>v. f (b, v)) (take (n - length xs) ys)"
  by (simp add: take_map comp_def)

lemma drop_eligible:
  "map f (drop n (map (Pair a) xs @ map (Pair b) ys)) =
     map (\<lambda>v. f (a, v)) (drop n xs) @ map (\<lambda>v. f (b, v)) (drop (n - length xs) ys)"
  by (simp add: drop_map comp_def)

lemma sweep_both:
  assumes inv: "\<forall>v \<in> set (listed (episodes w)) \<union> set (listed (movies w)).
                  \<forall>t. http_head e t (v_url v) \<noteq> Some 200"
      and sel: "\<forall>t tn. \<not> db_error e t (TableSelect tn)"
  shows "apiCallsUsed (stats (processFreshVideos e w)) =
           apiCallsUsed (stats w) + min (length (eligible w)) (remaining w)"
    and "filter is_graph (trace (processFreshVideos e w)) =
           filter is_graph (trace w)
           @ map (\<lambda>(tn, v). GraphGet (v_videoId v)) (take (remaining w) (eligible w))"
    and "filter is_insert (trace (processFreshVideos e w)) =
           filter is_insert (trace w)
           @ map (\<lambda>(tn, v). insert_request tn v) (drop (remaining w) (eligible w))"
    and "(\<forall>t r. is_insert r \<longrightarrow> \<not> db_error e t r) \<Longrightarrow>
         map payload (url_update_queue (processFreshVideos e w)) =
           map payload (url_update_queue w)
           @ map (\<lambda>(tn, v). deferred tn v) (drop (remaining w) (eligible w))"
proof -
  let ?E = "listed (episodes w)" and ?M = "listed (movies w)"
  let ?w0 = "issue (TableSelect ''episodes'') w"
  let ?w1 = "sweepTable e ''episodes'' w"
  let ?w2 = "issue (TableSelect ''movies'') ?w1"
  have invE: "\<forall>v \<in> set ?E. \<forall>t. http_head e t (v_url v) \<noteq> Some 200"
    and invM: "\<forall>v \<in> set ?M. \<forall>t. http_head e t (v_url v) \<noteq> Some 200"
    using inv by simp_all
  have e1: "?w1 = sweepVideos e ''episodes'' ?E ?w0"
    using sel by (simp add: sweepTable_listed table_rows_def)
  have mv: "movies ?w1 = movies w"
    unfolding e1 by (simp add: sweepVideos_other_table)
  have e2: "processFreshVideos e w = sweepVideos e ''movies'' ?M ?w2"
    unfolding processFreshVideos_unfold using sel
    by (simp add: sweepTable_listed [of e ?w1 "''movies''"] table_rows_def mv)
  have u1: "apiCallsUsed (stats ?w1) = apiCallsUsed (stats w) + min (length ?E) (remaining w)"
    unfolding e1 by (simp add: sweepVideos_invalid_calls [OF invE])
  have r1: "remaining ?w1 = remaining w - length ?E"
    using u1 by (simp add: remaining_def)
  show "apiCallsUsed (stats (processFreshVideos e w)) =
           apiCallsUsed (stats w) + min (length (eligible w)) (remaining w)"
    unfolding e2 using u1 r1
    by (simp add: sweepVideos_invalid_calls [OF invM] eligible_def)
  have g1: "filter is_graph (trace ?w1) =
              filter is_graph (trace w) @ map (\<lambda>v. GraphGet (v_videoId v)) (take (remaining w) ?E)"
    unfolding e1 by (simp add: sweepVideos_invalid_graph [OF invE])
  show "filter is_graph (trace (processFreshVideos e w)) =
           filter is_graph (trace w)
           @ map (\<lambda>(tn, v). GraphGet (v_videoId v)) (take (remaining w) (eligible w))"
    unfolding e2 eligible_def take_eligible
    by (simp add: sweepVideos_invalid_graph [OF invM] g1 r1)
  have i1: "filter is_insert (trace ?w1) =
              filter is_insert (trace w) @ map (insert_request ''episodes'') (drop (remaining w) ?E)"
    unfolding e1 by (simp add: sweepVideos_invalid_inserts [OF invE])
  show "filter is_insert (trace (processFreshVideos e w)) =
           filter is_insert (trace w)
           @ map (\<lambda>(tn, v). insert_request tn v) (drop (remaining w) (eligible w))"
    unfolding e2 eligible_def drop_eligible
    by (simp add: sweepVideos_invalid_inserts [OF invM] i1 r1)
  show "map payload (url_update_queue (processFreshVideos e w)) =
           map payload (url_update_queue w)
           @ map (\<lambda>(tn, v). deferred tn v) (drop (remaining w) (eligible w))"
    if acc: "\<forall>t r. is_insert r \<longrightarrow> \<not> db_error e t r"
  proof -
    have q1: "map payload (url_update_queue ?w1) =
                map payload (url_update_queue w) @ map (deferred ''episodes'') (drop (remaining w) ?E)"
      unfolding e1 by (simp add: sweepVideos_accepted [OF invE acc])
    show ?thesis
      unfolding e2 eligible_def drop_eligible
      by (simp add: sweepVideos_accepted [OF invM acc] q1 r1)
  qed
qed

text \<open>
  C2, the counterexample. One call is left and three records are listed, all probing
  invalid; the store answers reads and refuses writes. One record is resolved and the two
  others are passed to addToQueue, but none is stored and the queued counter stays 0, not
  the remainder 2.
\<close>

theorem sweep_budget_split_counterexample:
  "remaining sweep_world = 1
   \<and> length (eligible sweep_world) = 3
   \<and> apiCallsUsed (stats (processFreshVideos read_only_env sweep_world)) = 190
   \<and> queued (stats (processFreshVideos read_only_env sweep_world)) = 0
   \<and> url_update_queue (processFreshVideos read_only_env sweep_world) = []
   \<and> filter is_insert (trace (processFreshVideos read_only_env sweep_world)) =
       [QueueInsert ''episodes'' 2 ''f2'' (Some ''u2'') (Some ''b''),
        QueueInsert ''movies'' 3 ''f3'' (Some ''u3'') (Some ''c'')]"
  by code_simp

text \<open>
  C2, as amended. Let N be the budget left and the two listings succeed with M > N records
  in all, every one probing invalid. Then the sweep resolves exactly the first N records in
  sweep order (episodes, then movies) and sends one insert for each of the other M - N:
  the rest of the kind where the budget ran out and every record of the kind after it.
  The queued counter grows by the number of inserts the store accepted, which is the
  number of new tasks; when the store accepts every insert that is M - N, and the new
  tasks are those M - N records, pending, in sweep order.
\<close>

theorem sweep_budget_split:
  assumes "\<forall>v \<in> set (listed (episodes w)) \<union> set (listed (movies w)).
             \<forall>t. http_head e t (v_url v) \<noteq> Some 200"
      and "\<forall>t tn. \<not> db_error e t (TableSelect tn)"
      and "remaining w < length (eligible w)"
  shows "apiCallsUsed (stats (processFreshVideos e w)) = apiCallsUsed (stats w) + remaining w
         \<and> filter is_graph (trace (processFreshVideos e w)) =
             filter is_graph (trace w)
             @ map (\<lambda>(tn, v). GraphGet (v_videoId v)) (take (remaining w) (eligible w))
         \<and> filter is_insert (trace (processFreshVideos e w)) =
             filter is_insert (trace w)
             @ map (\<lambda>(tn, v). insert_request tn v) (drop (remaining w) (eligible w))
         \<and> queued (stats (processFreshVideos e w)) + length (url_update_queue w) =
             queued (stats w) + length (url_update_queue (processFreshVideos e w))
         \<and> ((\<forall>t r. is_insert r \<longrightarrow> \<not> db_error e t r) \<longrightarrow>
              queued (stats (processFreshVideos e w)) =
                queued (stats w) + (length (eligible w) - remaining w)
            \<and> map payload (url_update_queue (processFreshVideos e w)) =
                map payload (url_update_queue w)
                @ map (\<lambda>(tn, v). deferred tn v) (drop (remaining w) (eligible w)))"
proof -
  let ?w = "processFreshVideos e w"
  have a: "apiCallsUsed (stats ?w) = apiCallsUsed (stats w) + remaining w"
    using sweep_both(1) [OF assms(1,2)] assms(3) by simp
  have c: "queued (stats ?w) + length (url_update_queue w) =
             queued (stats w) + length (url_update_queue ?w)"
    by (rule processFreshVideos_counted)
  have d: "queued (stats ?w) = queued (stats w) + (length (eligible w) - remaining w)
           \<and> map payload (url_update_queue ?w) =
               map payload (url_update_queue w)
               @ map (\<lambda>(tn, v). deferred tn v) (drop (remaining w) (eligible w))"
    if acc: "\<forall>t r. is_insert r \<longrightarrow> \<not> db_error e t r"
  proof -
    have p: "map payload (url_update_queue ?w) =
               map payload (url_update_queue w)
               @ map (\<lambda>(tn, v). deferred tn v) (drop (remaining w) (eligible w))"
      by (rule sweep_both(4) [OF assms(1,2) acc])
    have "length (map payload (url_update_queue ?w)) =
            length (url_update_queue w) + (length (eligible w) - remaining w)"
      unfolding p by simp
    then have "length (url_update_queue ?w) =
            length (url_update_queue w) + (length (eligible w) - remaining w)"
      by simp
    with c have "queued (stats ?w) = queued (stats w) + (length (eligible w) - remaining w)"
      by linarith
    with p show ?thesis by simp
  qed
  from a sweep_both(2,3) [OF assms(1,2)] c d show ?thesis by blast
qed

theorem sweep_budget_split_witness:
  "remaining sweep_world = 1
   \<and> length (eligible sweep_world) = 3
   \<and> apiCallsUsed (stats (processFreshVideos quiet_env sweep_world)) = 190
   \<and> queued (stats (processFreshVideos quiet_env sweep_world)) = 2
   \<and> map payload (url_update_queue (processFreshVideos quiet_env sweep_world)) =
       [(''episodes'', 2, ''f2'', Some ''u2'', Some ''b'', ''pending''),
        (''movies'', 3, ''f3'', Some ''u3'', Some ''c'', ''pending'')]"
proof -
  have h1: "\<forall>v \<in> set (listed (episodes sweep_world)) \<union> set (listed (movies sweep_world)).
             \<forall>t. http_head quiet_env t (v_url v) \<noteq> Some 200"
    by (simp add: quiet_env_def)
  have h2: "\<forall>t tn. \<not> db_error quiet_env t (TableSelect tn)"
    by (simp add: quiet_env_def)
  have h4: "\<forall>t r. is_insert r \<longrightarrow> \<not> db_error quiet_env t r"
    by (simp add: quiet_env_def)
  have r: "remaining sweep_world = 1"
    by code_simp
  have el: "eligible sweep_world =
      [(''episodes'', \<lparr>v_id = 1, v_title = Some ''a'', v_url = ''u1'', v_videoId = ''f1''\<rparr>),
       (''episodes'', \<lparr>v_id = 2, v_title = Some ''b'', v_url = ''u2'', v_videoId = ''f2''\<rparr>),
       (''movies'', \<lparr>v_id = 3, v_title = Some ''c'', v_url = ''u3'', v_videoId = ''f3''\<rparr>)]"
    by code_simp
  have h3: "remaining sweep_world < length (eligible sweep_world)"
    by (simp add: r el)
  have s0: "apiCallsUsed (stats sweep_world) = 189" "queued (stats sweep_world) = 0"
           "url_update_queue sweep_world = []"
    by (simp_all add: sweep_world_def last_call_world_def empty_world_def fresh_stats_def)
  show ?thesis
    using sweep_budget_split [OF h1 h2 h3] h4
    by (simp add: r el s0 deferred_def)
qed

subsection \<open>A run that finds nothing to do\<close>

lemma sendTelegram_simps [simp]:
  "stats (sendTelegram e n w) = stats w"
  "episodes (sendTelegram e n w) = episodes w"
  "movies (sendTelegram e n w) = movies w"
  "url_update_queue (sendTelegram e n w) = url_update_queue w"
  by (simp_all add: sendTelegram_def)

lemma listed_not_NULL: "v \<in> set (listed rows) \<Longrightarrow> v_url v \<noteq> ''NULL''"
  by (auto simp add: listed_def map_filter_def split: option.splits if_splits)

lemma sweepVideo_valid:
  assumes "v_url v \<noteq> []" and "v_url v \<noteq> ''NULL''" and "\<forall>t. http_head e t (v_url v) = Some 200"
  shows "stats (sweepVideo e tn v w) =
           (stats w)\<lparr>totalChecked := totalChecked (stats w) + 1,
                     alreadyValid := alreadyValid (stats w) + 1\<rparr>"
    and "episodes (sweepVideo e tn v w) = episodes w"
    and "movies (sweepVideo e tn v w) = movies w"
  using assms by (simp_all add: sweepVideo_def Let_def case_prod_unfold isUrlValid_fst)

lemma sweepVideos_valid:
  assumes "\<forall>v \<in> set vs. v_url v \<noteq> [] \<and> v_url v \<noteq> ''NULL'' \<and> (\<forall>t. http_head e t (v_url v) = Some 200)"
      and "apiCallsUsed (stats w) < MAX_API_CALLS"
  shows "stats (sweepVideos e tn vs w) =
           (stats w)\<lparr>totalChecked := totalChecked (stats w) + length vs,
                     alreadyValid := alreadyValid (stats w) + length vs\<rparr>
         \<and> episodes (sweepVideos e tn vs w) = episodes w
         \<and> movies (sweepVideos e tn vs w) = movies w"
  using assms
proof (induction vs arbitrary: w)
  case Nil
  show ?case by simp
next
  case (Cons v vs)
  have v: "v_url v \<noteq> []" "v_url v \<noteq> ''NULL''" "\<forall>t. http_head e t (v_url v) = Some 200"
    using Cons.prems(1) by simp_all
  let ?w = "sweepVideo e tn v w"
  have st: "stats ?w = (stats w)\<lparr>totalChecked := totalChecked (stats w) + 1,
                     alreadyValid := alreadyValid (stats w) + 1\<rparr>"
    by (rule sweepVideo_valid(1) [OF v])
  have b: "apiCallsUsed (stats ?w) < MAX_API_CALLS"
    using Cons.prems(2) by (simp add: st)
  have rest: "\<forall>v \<in> set vs. v_url v \<noteq> [] \<and> v_url v \<noteq> ''NULL'' \<and> (\<forall>t. http_head e t (v_url v) = Some 200)"
    using Cons.prems(1) by simp
  have step: "sweepVideos e tn (v # vs) w = sweepVideos e tn vs ?w"
    using Cons.prems(2) by simp
  show ?case
    unfolding step using Cons.IH [OF rest b]
    by (simp add: st sweepVideo_valid(2,3) [OF v])
qed

lemma sweepTable_valid:
  assumes "\<forall>v \<in> set (listed (table_rows tn w)). v_url v \<noteq> [] \<and> (\<forall>t. http_head e t (v_url v) = Some 200)"
      and "apiCallsUsed (stats w) < MAX_API_CALLS"
  shows "\<exists>k. stats (sweepTable e tn w) =
                (stats w)\<lparr>totalChecked := totalChecked (stats w) + k,
                          alreadyValid := alreadyValid (stats w) + k\<rparr>"
    and "episodes (sweepTable e tn w) = episodes w"
    and "movies (sweepTable e tn w) = movies w"
proof -
  let ?vs = "listed (table_rows tn w)"
  let ?w1 = "issue (TableSelect tn) w"
  have good: "\<forall>v \<in> set ?vs. v_url v \<noteq> [] \<and> v_url v \<noteq> ''NULL'' \<and> (\<forall>t. http_head e t (v_url v) = Some 200)"
    using assms(1) listed_not_NULL by blast
  have b: "apiCallsUsed (stats ?w1) < MAX_API_CALLS"
    using assms(2) by simp
  note sv = sweepVideos_valid [OF good b, of tn]
  have cases: "sweepTable e tn w = ?w1 \<or> sweepTable e tn w = sweepVideos e tn ?vs ?w1"
    by (simp add: sweepTable_def Let_def)
  have z: "stats ?w1 = (stats w)\<lparr>totalChecked := totalChecked (stats w) + 0,
                          alreadyValid := alreadyValid (stats w) + 0\<rparr>"
    by simp
  from cases show "\<exists>k. stats (sweepTable e tn w) =
                (stats w)\<lparr>totalChecked := totalChecked (stats w) + k,
                          alreadyValid := alreadyValid (stats w) + k\<rparr>"
  proof
    assume "sweepTable e tn w = ?w1"
    then show ?thesis using z by metis
  next
    assume "sweepTable e tn w = sweepVideos e tn ?vs ?w1"
    then have "stats (sweepTable e tn w) =
                (stats w)\<lparr>totalChecked := totalChecked (stats w) + length ?vs,
                          alreadyValid := alreadyValid (stats w) + length ?vs\<rparr>"
      using sv by simp
    then show ?thesis by blast
  qed
  from cases sv show "episodes (sweepTable e tn w) = episodes w" by auto
  from cases sv show "movies (sweepTable e tn w) = movies w" by auto
qed

lemma processFreshVideos_valid:
  assumes "\<forall>v \<in> set (listed (episodes w)) \<union> set (listed (movies w)).
             v_url v \<noteq> [] \<and> (\<forall>t. http_head e t (v_url v) = Some 200)"
      and "apiCallsUsed (stats w) < MAX_API_CALLS"
  shows "\<exists>k. stats (processFreshVideos e w) =
                (stats w)\<lparr>totalChecked := totalChecked (stats w) + k,
                          alreadyValid := alreadyValid (stats w) + k\<rparr>"
proof -
  let ?w1 = "sweepTable e ''episodes'' w"
  have g1: "\<forall>v \<in> set (listed (table_rows ''episodes'' w)).
              v_url v \<noteq> [] \<and> (\<forall>t. http_head e t (v_url v) = Some 200)"
    using assms(1) by (simp add: table_rows_def)
  note t1 = sweepTable_valid [OF g1 assms(2)]
  obtain k1 where k1: "stats ?w1 = (stats w)\<lparr>totalChecked := totalChecked (stats w) + k1,
                          alreadyValid := alreadyValid (stats w) + k1\<rparr>"
    using t1(1) by blast
  have g2: "\<forall>v \<in> set (listed (table_rows ''movies'' ?w1)).
              v_url v \<noteq> [] \<and> (\<forall>t. http_head e t (v_url v) = Some 200)"
    using assms(1) by (simp add: table_rows_def t1(3))
  have b2: "apiCallsUsed (stats ?w1) < MAX_API_CALLS"
    using assms(2) by (simp add: k1)
  obtain k2 where k2: "stats (sweepTable e ''movies'' ?w1) =
       (stats ?w1)\<lparr>totalChecked := totalChecked (stats ?w1) + k2,
                   alreadyValid := alreadyValid (stats ?w1) + k2\<rparr>"
    using sweepTable_valid(1) [OF g2 b2] by blast
  have "stats (processFreshVideos e w) =
          (stats w)\<lparr>totalChecked := totalChecked (stats w) + (k1 + k2),
                    alreadyValid := alreadyValid (stats w) + (k1 + k2)\<rparr>"
    unfolding processFreshVideos_unfold k2 by (simp add: k1 add.assoc)
  then show ?thesis by blast
qed

lemma selectPending_none:
  "\<forall>x \<in> set q. status x \<noteq> ''pending'' \<Longrightarrow> selectPending n q = []"
  by (simp add: selectPending_def filter_empty_conv [THEN iffD2])

text \<open>
  C8. The closing line is the first that applies of: all updated (nothing queued, nothing
  failed, something updated), all valid (nothing queued, every checked URL valid), the
  queued note (something queued), no line. And a run that finds no pending task and whose
  listed records all probe valid closes with the "No updates needed" line, with the
  updated, failed and queued counters at zero.
\<close>

theorem report_closing_line:
  assumes "\<forall>x \<in> set (url_update_queue w). status x \<noteq> ''pending''"
      and "\<forall>v \<in> set (listed (episodes w)) \<union> set (listed (movies w)).
             v_url v \<noteq> [] \<and> (\<forall>t. http_head e t (v_url v) = Some 200)"
  shows "(closingLine s = AllUpdated) = (queued s = 0 \<and> failed s = 0 \<and> 0 < updated s)
         \<and> (closingLine s = AllValid) =
             (closingLine s \<noteq> AllUpdated \<and> queued s = 0 \<and> totalChecked s = alreadyValid s)
         \<and> (closingLine s = QueuedNote n) =
             (closingLine s \<noteq> AllUpdated \<and> closingLine s \<noteq> AllValid \<and> 0 < queued s \<and> n = queued s)
         \<and> (closingLine s = NoClosing) =
             (closingLine s \<noteq> AllUpdated \<and> closingLine s \<noteq> AllValid \<and> queued s = 0)
         \<and> fst (processUrlUpdates e w) = AllValid
         \<and> updated (stats (snd (processUrlUpdates e w))) = 0
         \<and> failed (stats (snd (processUrlUpdates e w))) = 0
         \<and> queued (stats (snd (processUrlUpdates e w))) = 0"
proof -
  let ?w0 = "w\<lparr>stats := fresh_stats (now e (tick w))\<rparr>"
  let ?w1 = "sendTelegram e StartNote ?w0"
  let ?w2 = "processQueue e ?w1"
  let ?w3 = "processFreshVideos e ?w2"
  have none: "queueItems e MAX_API_CALLS ?w1 = []"
    using assms(1) by (simp add: queueItems_def selectPending_none)
  have w2: "?w2 = issue (QueueSelect MAX_API_CALLS) ?w1"
    by (simp add: processQueue_def Let_def none)
  have st2: "stats ?w2 = fresh_stats (now e (tick w))"
    and tb2: "episodes ?w2 = episodes w" "movies ?w2 = movies w"
    unfolding w2 by simp_all
  have b2: "apiCallsUsed (stats ?w2) < MAX_API_CALLS"
    unfolding st2 by (simp add: fresh_stats_def MAX_API_CALLS_def)
  have g2: "\<forall>v \<in> set (listed (episodes ?w2)) \<union> set (listed (movies ?w2)).
             v_url v \<noteq> [] \<and> (\<forall>t. http_head e t (v_url v) = Some 200)"
    unfolding tb2 by (rule assms(2))
  obtain k where k: "stats ?w3 = (stats ?w2)\<lparr>totalChecked := totalChecked (stats ?w2) + k,
                          alreadyValid := alreadyValid (stats ?w2) + k\<rparr>"
    using processFreshVideos_valid [OF g2 b2] by blast
  have run: "processUrlUpdates e w =
               (closingLine (stats ?w3), sendTelegram e (ReportNote (closingLine (stats ?w3))) ?w3)"
    using b2 by (simp add: processUrlUpdates_def Let_def)
  have st3: "stats ?w3 = (fresh_stats (now e (tick w)))\<lparr>totalChecked := k, alreadyValid := k\<rparr>"
    unfolding k st2 by (simp add: fresh_stats_def)
  have r: "fst (processUrlUpdates e w) = AllValid"
          "updated (stats (snd (processUrlUpdates e w))) = 0"
          "failed (stats (snd (processUrlUpdates e w))) = 0"
          "queued (stats (snd (processUrlUpdates e w))) = 0"
    unfolding run fst_conv snd_conv sendTelegram_simps st3
    by (simp_all add: fresh_stats_def closingLine_def)
  have p: "(closingLine s = AllUpdated) = (queued s = 0 \<and> failed s = 0 \<and> 0 < updated s)"
      "(closingLine s = AllValid) =
             (closingLine s \<noteq> AllUpdated \<and> queued s = 0 \<and> totalChecked s = alreadyValid s)"
      "(closingLine s = QueuedNote n) =
             (closingLine s \<noteq> AllUpdated \<and> closingLine s \<noteq> AllValid \<and> 0 < queued s \<and> n = queued s)"
      "(closingLine s = NoClosing) =
             (closingLine s \<noteq> AllUpdated \<and> closingLine s \<noteq> AllValid \<and> queued s = 0)"
    by (auto simp add: closingLine_def)
  from p r show ?thesis by blast
qed

theorem report_closing_line_witness:
  "fst (processUrlUpdates ok_env valid_world) = AllValid
   \<and> updated (stats (snd (processUrlUpdates ok_env valid_world))) = 0
   \<and> failed (stats (snd (processUrlUpdates ok_env valid_world))) = 0
   \<and> queued (stats (snd (processUrlUpdates ok_env valid_world))) = 0"
proof -
  have h1: "\<forall>x \<in> set (url_update_queue valid_world). status x \<noteq> ''pending''"
    by (simp add: valid_world_def done_task_def)
  have l: "listed (episodes valid_world) =
      [\<lparr>v_id = 1, v_title = Some ''a'', v_url = ''u1'', v_videoId = ''f1''\<rparr>,
       \<lparr>v_id = 2, v_title = Some ''b'', v_url = ''u2'', v_videoId = ''f2''\<rparr>]"
     "listed (movies valid_world) =
      [\<lparr>v_id = 3, v_title = Some ''c'', v_url = ''u3'', v_videoId = ''f3''\<rparr>]"
    by code_simp+
  have h2: "\<forall>v \<in> set (listed (episodes valid_world)) \<union> set (listed (movies valid_world)).
             v_url v \<noteq> [] \<and> (\<forall>t. http_head ok_env t (v_url v) = Some 200)"
    unfolding l by (simp add: ok_env_def)
  from report_closing_line [OF h1 h2] show ?thesis by blast
qed

end
